theory Spec2Isabelle
  imports Main "HOL-Library.AList"
begin

section \<open>The multiplayer snake server (server.py)\<close>

text \<open>
  A shallow embedding of the game server: the shared world of \<open>Server\<close>, the per-connection
  handler \<open>handle_client\<close>, the physics step \<open>game_tick\<close>, the food search \<open>spawn_food\<close>
  and the renderer and sender \<open>broadcast_frame\<close>.

  Python's dictionaries keep insertion order and the physics step depends on it, so the
  dictionaries \<open>snakes\<close>, \<open>writers\<close> and \<open>players\<close> are association lists in insertion order.
  Random choices are inputs of the model: the cells drawn by \<open>random.randrange\<close> are passed
  in, and the unbounded search of \<open>spawn_food\<close> consumes a list of drawn cells. Whether a
  write on a transport raises is an input too (\<open>fails\<close>). Exceptions are values of type
  \<open>error\<close>.
\<close>

subsection \<open>Configuration\<close>

type_synonym pos = "int \<times> int"

definition WIDTH :: int where
  "WIDTH = 30"

definition HEIGHT :: int where
  "HEIGHT = 15"

definition DIRS_items :: "(string \<times> pos) list" where
  "DIRS_items = [(''U'', (0, -1)), (''D'', (0, 1)), (''L'', (-1, 0)), (''R'', (1, 0))]"

definition DIRS :: "string \<rightharpoonup> pos" where
  "DIRS = map_of DIRS_items"

subsection \<open>Exceptions, messages, parsed input\<close>

datatype error = IndexError | KeyError | AttributeError | TypeError | OSError | OutOfDraws

text \<open>
  \<open>OutOfDraws\<close> is not a Python exception: it is the result of the model when the search
  loop of \<open>spawn_food\<close> has used every drawn cell it was given and is still searching.
\<close>

text \<open>
  The value \<open>json.loads\<close> returns. An object keeps its pairs in the order of the text; a
  later pair overrides an earlier one with the same key. The value of a float is never
  inspected by the server, so \<open>JFloat\<close> carries none.
\<close>

datatype json =
    JNull
  | JBool bool
  | JInt int
  | JFloat
  | JStr string
  | JArr "json list"
  | JObj "(string \<times> json) list"

text \<open>What \<open>reader.readline()\<close> followed by \<open>json.loads(line.decode('utf8').strip())\<close> gives:
  the empty read of a closed connection, or a line, whose decoding and parsing either raises
  (\<open>None\<close>) or returns a value.\<close>

datatype read = Eof | Line "json option"

type_synonym writer = nat
type_synonym reader = nat

text \<open>The two messages the server sends, before \<open>json.dumps\<close>.\<close>

datatype msg =
    Frame int int "string list"
  | Dead int

subsection \<open>Snake and Server\<close>

record snake =
  pid :: int
  body :: "pos list"
  dir :: string
  grow :: int
  alive :: bool

record server =
  players :: "(reader \<times> int) list"
  writers :: "(int \<times> writer) list"
  snakes :: "(int \<times> snake) list"
  next_pid :: int
  food :: "pos list"

text \<open>
  \<open>food\<close> is a Python set: the list holds its elements without repetition. The server only
  tests membership, adds an absent cell, removes a present one and draws every cell, none
  of which depends on the order.
\<close>

definition Snake :: "int \<Rightarrow> int \<Rightarrow> int \<Rightarrow> string \<Rightarrow> snake" where
  "Snake p x y dir_key = \<lparr>pid = p, body = [(x, y)], dir = dir_key, grow = 0, alive = True\<rparr>"

definition init_server :: server where
  "init_server = \<lparr>players = [], writers = [], snakes = [], next_pid = 1, food = []\<rparr>"

subsection \<open>spawn\_food\<close>

text \<open>
  The \<open>while True\<close> loop, one drawn cell \<open>(x, y)\<close> per iteration. The occupancy test runs over
  every value of \<open>self.snakes\<close>. The result holds the draws that were not used.
\<close>

fun spawn_food :: "pos list \<Rightarrow> server \<Rightarrow> error + (server \<times> pos list)" where
  "spawn_food [] w = Inl OutOfDraws"
| "spawn_food ((x, y) # ds) w =
     (if list_ex (\<lambda>(p, s). (x, y) \<in> set (body s)) (snakes w) then spawn_food ds w
      else if (x, y) \<in> set (food w) then spawn_food ds w
      else Inr (w\<lparr>food := food w @ [(x, y)]\<rparr>, ds))"

subsection \<open>handle\_client\<close>

text \<open>Lines 88 to 103: the new snake is registered under the next id. \<open>x\<close>, \<open>y\<close> and \<open>d\<close> are
  the results of \<open>random.randrange(WIDTH)\<close>, \<open>random.randrange(HEIGHT)\<close> and
  \<open>random.choice(list(DIRS.keys()))\<close>.\<close>

definition accept :: "reader \<Rightarrow> writer \<Rightarrow> int \<Rightarrow> int \<Rightarrow> string \<Rightarrow> server \<Rightarrow> int \<times> server" where
  "accept r wr x y d w =
     (let p = next_pid w;
          sn = Snake p x y d
      in (p, w\<lparr>next_pid := p + 1,
               snakes := AList.update p sn (snakes w),
               writers := AList.update p wr (writers w),
               players := AList.update r p (players w)\<rparr>))"

text \<open>\<open>msg.get(k)\<close>: only a dict has the method.\<close>

fun dict_get :: "json \<Rightarrow> string \<Rightarrow> error + json" where
  "dict_get (JObj kvs) k = Inr (case map_of (rev kvs) k of None \<Rightarrow> JNull | Some v \<Rightarrow> v)"
| "dict_get v k = Inl AttributeError"

text \<open>Lines 122 to 134, under the lock: the direction rule applied to the snake of \<open>p\<close>.\<close>

definition apply_cmd :: "int \<Rightarrow> string \<Rightarrow> server \<Rightarrow> error + server" where
  "apply_cmd p d w =
     (case map_of (snakes w) p of
        None \<Rightarrow> Inr w
      | Some s \<Rightarrow>
          if alive s then
            (if length (body s) < 2 then
               Inr (w\<lparr>snakes := AList.update p (s\<lparr>dir := d\<rparr>) (snakes w)\<rparr>)
             else
               (case (body s ! 0, body s ! 1) of
                  ((hx, hy), (nx, ny)) \<Rightarrow>
                    (case DIRS d of
                       None \<Rightarrow> Inl KeyError
                     | Some v \<Rightarrow>
                         if (hx - nx, hy - ny) \<noteq> v then
                           Inr (w\<lparr>snakes := AList.update p (s\<lparr>dir := d\<rparr>) (snakes w)\<rparr>)
                         else Inr w)))
          else Inr w)"

text \<open>Lines 119 to 134 for a parsed value. \<open>d in DIRS\<close> hashes \<open>d\<close>: a list or a dict
  raises \<open>TypeError\<close>, any other value that is not one of the four keys is not in \<open>DIRS\<close>.\<close>

definition handle_msg :: "int \<Rightarrow> json \<Rightarrow> server \<Rightarrow> error + server" where
  "handle_msg p m w =
     (case dict_get m ''type'' of
        Inl e \<Rightarrow> Inl e
      | Inr t \<Rightarrow>
          if t = JStr ''cmd'' then
            (case dict_get m ''dir'' of
               Inl e \<Rightarrow> Inl e
             | Inr d \<Rightarrow>
                 (case d of
                    JStr k \<Rightarrow> if DIRS k \<noteq> None then apply_cmd p k w else Inr w
                  | JArr xs \<Rightarrow> Inl TypeError
                  | JObj kvs \<Rightarrow> Inl TypeError
                  | _ \<Rightarrow> Inr w))
          else Inr w)"

text \<open>The \<open>finally\<close> block, lines 142 to 146.\<close>

definition cleanup :: "int \<Rightarrow> server \<Rightarrow> server" where
  "cleanup p w =
     (let w1 = (case map_of (snakes w) p of
                  None \<Rightarrow> w
                | Some s \<Rightarrow> w\<lparr>snakes := AList.update p (s\<lparr>alive := False\<rparr>) (snakes w)\<rparr>)
      in w1\<lparr>writers := AList.delete p (writers w1)\<rparr>)"

text \<open>
  One iteration of the input loop of the session of \<open>p\<close>. The flag of the result says whether
  the loop goes on. An empty read leaves the loop; a line that does not parse is skipped by
  \<open>continue\<close>; an exception raised after the parse is caught by nothing but the \<open>finally\<close>
  block, which runs \<open>cleanup\<close> as the handler ends.
\<close>

definition session_step :: "int \<Rightarrow> read \<Rightarrow> server \<Rightarrow> server \<times> bool" where
  "session_step p r w =
     (case r of
        Eof \<Rightarrow> (cleanup p w, False)
      | Line None \<Rightarrow> (w, True)
      | Line (Some m) \<Rightarrow>
          (case handle_msg p m w of
             Inl e \<Rightarrow> (cleanup p w, False)
           | Inr w' \<Rightarrow> (w', True)))"

subsection \<open>game\_tick\<close>

text \<open>Lines 176 to 183: the candidate head of a snake.\<close>

definition next_head :: "snake \<Rightarrow> error + pos" where
  "next_head s =
     (case DIRS (dir s) of
        None \<Rightarrow> Inl KeyError
      | Some (dx, dy) \<Rightarrow>
          (case body s of
             [] \<Rightarrow> Inl IndexError
           | (hx, hy) # rest \<Rightarrow> Inr ((hx + dx) mod WIDTH, (hy + dy) mod HEIGHT)))"

text \<open>Lines 186 to 193: the test runs over the values of \<open>self.snakes\<close> as they are now.\<close>

definition collides :: "pos \<Rightarrow> (int \<times> snake) list \<Rightarrow> bool" where
  "collides h sns = list_ex (\<lambda>(p, other). alive other \<and> h \<in> set (body other)) sns"

type_synonym tick_state = "server \<times> int list \<times> pos list"

text \<open>
  The body of the loop of line 171 for the \<open>i\<close>-th item of \<open>list(self.snakes.items())\<close>. The
  state is the world, \<open>to_kill\<close> and the draws left. The snake object is changed in place,
  which is an update of the \<open>i\<close>-th entry.
\<close>

definition tick_snake :: "nat \<Rightarrow> tick_state \<Rightarrow> error + tick_state" where
  "tick_snake i st =
     (case st of (w, to_kill, ds) \<Rightarrow>
        (case snakes w ! i of (p, s) \<Rightarrow>
           if \<not> alive s then Inr st
           else
             (case next_head s of
                Inl e \<Rightarrow> Inl e
              | Inr h \<Rightarrow>
                  if collides h (snakes w) then
                    Inr (w\<lparr>snakes := (snakes w)[i := (p, s\<lparr>alive := False\<rparr>)]\<rparr>,
                         to_kill @ [p], ds)
                  else
                    (let s1 = s\<lparr>body := h # body s\<rparr>;
                         w1 = w\<lparr>snakes := (snakes w)[i := (p, s1)]\<rparr>
                     in case (if h \<in> set (food w1) then
                                spawn_food ds
                                  (w1\<lparr>food := removeAll h (food w1),
                                      snakes := (snakes w1)[i := (p, s1\<lparr>grow := grow s1 + 3\<rparr>)]\<rparr>)
                              else Inr (w1, ds)) of
                          Inl e \<Rightarrow> Inl e
                        | Inr (w2, ds2) \<Rightarrow>
                            (let s2 = snd (snakes w2 ! i);
                                 s3 = (if grow s2 > 0 then s2\<lparr>grow := grow s2 - 1\<rparr>
                                       else s2\<lparr>body := butlast (body s2)\<rparr>)
                             in Inr (w2\<lparr>snakes := (snakes w2)[i := (p, s3)]\<rparr>, to_kill, ds2))))))"

fun tick_loop :: "nat list \<Rightarrow> tick_state \<Rightarrow> error + tick_state" where
  "tick_loop [] st = Inr st"
| "tick_loop (i # is) st =
     (case tick_snake i st of
        Inl e \<Rightarrow> Inl e
      | Inr st' \<Rightarrow> tick_loop is st')"

text \<open>Lines 169 to 213.\<close>

definition move_snakes :: "pos list \<Rightarrow> server \<Rightarrow> error + tick_state" where
  "move_snakes ds w = tick_loop [0..<length (snakes w)] (w, [], ds)"

text \<open>A call of \<open>w.write(data)\<close>: the call is recorded, and it raises when the transport
  fails.\<close>

definition transport_write :: "(writer \<Rightarrow> bool) \<Rightarrow> writer \<Rightarrow> msg \<Rightarrow> (writer \<times> msg) list
    \<Rightarrow> (writer \<times> msg) list \<times> error option" where
  "transport_write fails wr m tr = (tr @ [(wr, m)], if fails wr then Some OSError else None)"

text \<open>Lines 216 to 222.\<close>

fun notify_dead :: "(writer \<Rightarrow> bool) \<Rightarrow> (int \<times> writer) list \<Rightarrow> int list
    \<Rightarrow> (writer \<times> msg) list \<Rightarrow> (writer \<times> msg) list" where
  "notify_dead fails wrs [] tr = tr"
| "notify_dead fails wrs (p # ps) tr =
     (case map_of wrs p of
        None \<Rightarrow> notify_dead fails wrs ps tr
      | Some wr \<Rightarrow>
          (case transport_write fails wr (Dead p) tr of
             (tr', Some e) \<Rightarrow> notify_dead fails wrs ps tr'
           | (tr', None) \<Rightarrow> notify_dead fails wrs ps tr'))"

definition game_tick :: "(writer \<Rightarrow> bool) \<Rightarrow> pos list \<Rightarrow> server
    \<Rightarrow> error + (server \<times> (writer \<times> msg) list \<times> pos list)" where
  "game_tick fails ds w =
     (case move_snakes ds w of
        Inl e \<Rightarrow> Inl e
      | Inr (w', to_kill, ds') \<Rightarrow> Inr (w', notify_dead fails (writers w') to_kill [], ds'))"

subsection \<open>broadcast\_frame\<close>

text \<open>Python's list index: a negative index counts from the end.\<close>

definition py_index :: "nat \<Rightarrow> int \<Rightarrow> nat option" where
  "py_index n i =
     (if 0 \<le> i \<and> i < int n then Some (nat i)
      else if - int n \<le> i \<and> i < 0 then Some (nat (int n + i))
      else None)"

text \<open>\<open>rows[y][x] = c\<close>.\<close>

definition set_cell :: "string list \<Rightarrow> int \<Rightarrow> int \<Rightarrow> char \<Rightarrow> error + string list" where
  "set_cell rows x y c =
     (case py_index (length rows) y of
        None \<Rightarrow> Inl IndexError
      | Some j \<Rightarrow>
          (case py_index (length (rows ! j)) x of
             None \<Rightarrow> Inl IndexError
           | Some i \<Rightarrow> Inr (rows[j := (rows ! j)[i := c]])))"

fun draw :: "(pos \<times> char) list \<Rightarrow> string list \<Rightarrow> error + string list" where
  "draw [] rows = Inr rows"
| "draw (((x, y), c) # cs) rows =
     (case set_cell rows x y c of
        Inl e \<Rightarrow> Inl e
      | Inr rows' \<Rightarrow> draw cs rows')"

text \<open>\<open>str(pid % 10)\<close> and \<open>ch.upper()\<close> for a string of one character.\<close>

definition str_digit :: "int \<Rightarrow> char" where
  "str_digit n = char_of (48 + nat n)"

definition upper :: "char \<Rightarrow> char" where
  "upper c =
     (if (97::nat) \<le> of_char c \<and> of_char c \<le> (122::nat) then char_of (of_char c - (32::nat))
      else c)"

text \<open>Lines 240 to 242: the cells of one snake with their characters.\<close>

definition snake_cells :: "int \<Rightarrow> snake \<Rightarrow> (pos \<times> char) list" where
  "snake_cells p s =
     (let ch = str_digit (p mod 10)
      in map (\<lambda>(i, c). (c, if i > 0 then ch else upper ch)) (enumerate 0 (body s)))"

text \<open>Lines 236 to 242.\<close>

fun draw_snakes :: "(int \<times> snake) list \<Rightarrow> string list \<Rightarrow> error + string list" where
  "draw_snakes [] rows = Inr rows"
| "draw_snakes ((p, s) # sns) rows =
     (if \<not> alive s then draw_snakes sns rows
      else
        (case draw (snake_cells p s) rows of
           Inl e \<Rightarrow> Inl e
         | Inr rows' \<Rightarrow> draw_snakes sns rows'))"

text \<open>Lines 229 to 248.\<close>

definition render :: "server \<Rightarrow> error + msg" where
  "render w =
     (let rows = replicate (nat HEIGHT) (replicate (nat WIDTH) (CHR ''.''))
      in case draw (map (\<lambda>c. (c, CHR ''*'')) (food w)) rows of
           Inl e \<Rightarrow> Inl e
         | Inr rows1 \<Rightarrow>
             (case draw_snakes (snakes w) rows1 of
                Inl e \<Rightarrow> Inl e
              | Inr rows2 \<Rightarrow> Inr (Frame WIDTH HEIGHT rows2)))"

text \<open>Lines 252 to 258: the pass over \<open>list(self.writers.items())\<close>.\<close>

fun send_all :: "(writer \<Rightarrow> bool) \<Rightarrow> msg \<Rightarrow> (int \<times> writer) list
    \<Rightarrow> (writer \<times> msg) list \<times> int list \<Rightarrow> (writer \<times> msg) list \<times> int list" where
  "send_all fails data [] acc = acc"
| "send_all fails data ((p, wr) # ws) (tr, dead) =
     (case transport_write fails wr data tr of
        (tr', Some e) \<Rightarrow> send_all fails data ws (tr', dead @ [p])
      | (tr', None) \<Rightarrow> send_all fails data ws (tr', dead))"

text \<open>\<open>del self.writers[pid]\<close> raises on an absent key.\<close>

definition del_key :: "int \<Rightarrow> (int \<times> writer) list \<Rightarrow> error + (int \<times> writer) list" where
  "del_key p wrs = (if map_of wrs p = None then Inl KeyError else Inr (AList.delete p wrs))"

text \<open>Lines 261 to 262.\<close>

fun drop_dead :: "int list \<Rightarrow> (int \<times> writer) list \<Rightarrow> error + (int \<times> writer) list" where
  "drop_dead [] wrs = Inr wrs"
| "drop_dead (p # ps) wrs =
     (case del_key p wrs of
        Inl e \<Rightarrow> Inl e
      | Inr wrs' \<Rightarrow> drop_dead ps wrs')"

definition broadcast_frame :: "(writer \<Rightarrow> bool) \<Rightarrow> server
    \<Rightarrow> error + (server \<times> (writer \<times> msg) list)" where
  "broadcast_frame fails w =
     (case render w of
        Inl e \<Rightarrow> Inl e
      | Inr data \<Rightarrow>
          (case send_all fails data (writers w) ([], []) of
             (tr, dead) \<Rightarrow>
               (case drop_dead dead (writers w) of
                  Inl e \<Rightarrow> Inl e
                | Inr wrs \<Rightarrow> Inr (w\<lparr>writers := wrs\<rparr>, tr))))"

subsection \<open>The direction rule in the specification's words\<close>

text \<open>The vector from the second segment (the neck) to the head, \<open>body[0] - body[1]\<close>.\<close>

definition neck_to_head :: "snake \<Rightarrow> pos" where
  "neck_to_head s = (fst (body s ! 0) - fst (body s ! 1), snd (body s ! 0) - snd (body s ! 1))"

text \<open>
  The facing after a command for \<open>d\<close>, as section 4.2 of the specification words it: below
  two segments any direction is taken; from two segments on, \<open>d\<close> is taken unless its vector
  equals the neck-to-head vector, and a rejected command leaves the facing as it was.
\<close>

definition spec_new_dir :: "snake \<Rightarrow> string \<Rightarrow> string" where
  "spec_new_dir s d =
     (if length (body s) < 2 then d
      else if DIRS d \<noteq> Some (neck_to_head s) then d
      else dir s)"

subsection \<open>Concrete worlds and messages\<close>

text \<open>The command message \<open>{"type": "cmd", "dir": d}\<close> as parsed.\<close>

definition cmd :: "string \<Rightarrow> json" where
  "cmd d = JObj [(''type'', JStr ''cmd''), (''dir'', JStr d)]"

text \<open>One snake of two segments that has just moved right from \<open>(4, 0)\<close> to \<open>(5, 0)\<close>.\<close>

definition reversal_world :: server where
  "reversal_world = \<lparr>players = [(0, 1)], writers = [(1, 7)],
     snakes = [(1, \<lparr>pid = 1, body = [(5, 0), (4, 0)], dir = ''R'', grow = 0, alive = True\<rparr>)],
     next_pid = 2, food = []\<rparr>"

text \<open>The same world for a session that receives a line holding a JSON array.\<close>

definition garbage_world :: server where
  "garbage_world = \<lparr>players = [(0, 1)], writers = [(1, 7)],
     snakes = [(1, \<lparr>pid = 1, body = [(5, 0), (4, 0)], dir = ''R'', grow = 0, alive = True\<rparr>)],
     next_pid = 2, food = []\<rparr>"

text \<open>A world for the direction rule: a snake heading right, of two segments.\<close>

definition rule_world :: server where
  "rule_world = \<lparr>players = [(0, 1)], writers = [(1, 7)],
     snakes = [(1, \<lparr>pid = 1, body = [(5, 0), (4, 0)], dir = ''R'', grow = 0, alive = True\<rparr>)],
     next_pid = 2, food = []\<rparr>"

text \<open>A world whose only snake is dead and lies on \<open>(3, 3)\<close>.\<close>

definition dead_snake_world :: server where
  "dead_snake_world = \<lparr>players = [], writers = [],
     snakes = [(1, \<lparr>pid = 1, body = [(3, 3)], dir = ''R'', grow = 0, alive = False\<rparr>)],
     next_pid = 2, food = []\<rparr>"

subsection \<open>What one turn of the loop does to a surviving snake\<close>

text \<open>
  Lines 201 to 213 as they act on the snake alone: the new head \<open>h\<close> is put in front, the
  counter is raised by 3 when the cell held food (\<open>ate\<close>), and the tail rule follows.
\<close>

definition advance :: "snake \<Rightarrow> pos \<Rightarrow> bool \<Rightarrow> snake" where
  "advance s h ate =
     (let g = (if ate then grow s + 3 else grow s)
      in if g > 0 then s\<lparr>body := h # body s, grow := g - 1\<rparr>
         else s\<lparr>body := butlast (h # body s), grow := g\<rparr>)"

subsection \<open>Two snakes moving into the same free cell\<close>

text \<open>Snake 1 at \<open>(0, 0)\<close> heads right and snake 2 at \<open>(2, 0)\<close> heads left: the candidate head
  of both is the free cell \<open>(1, 0)\<close>. The second world is the first after one tick.\<close>

definition head_on_world :: server where
  "head_on_world = \<lparr>players = [], writers = [(1, 7), (2, 8)],
     snakes = [(1, \<lparr>pid = 1, body = [(0, 0)], dir = ''R'', grow = 0, alive = True\<rparr>),
               (2, \<lparr>pid = 2, body = [(2, 0)], dir = ''L'', grow = 0, alive = True\<rparr>)],
     next_pid = 3, food = []\<rparr>"

definition head_on_after :: server where
  "head_on_after = \<lparr>players = [], writers = [(1, 7), (2, 8)],
     snakes = [(1, \<lparr>pid = 1, body = [(1, 0)], dir = ''R'', grow = 0, alive = True\<rparr>),
               (2, \<lparr>pid = 2, body = [(2, 0)], dir = ''L'', grow = 0, alive = False\<rparr>)],
     next_pid = 3, food = []\<rparr>"

subsection \<open>A snake about to step on its own tail\<close>

text \<open>A snake of four segments coiled in a square, whose candidate head is its own last
  segment \<open>(0, 0)\<close>.\<close>

definition ring_world :: server where
  "ring_world = \<lparr>players = [], writers = [(1, 7)],
     snakes = [(1, \<lparr>pid = 1, body = [(1, 0), (1, 1), (0, 1), (0, 0)], dir = ''L'', grow = 0,
                   alive = True\<rparr>)],
     next_pid = 2, food = []\<rparr>"

subsection \<open>Eating\<close>

text \<open>
  Whether the \<open>i\<close>-th snake reaches the food test of line 204 with food under its new
  head, in the tick that starts from \<open>w\<close> with the draws \<open>ds\<close>: the snakes before it have had
  their turn, it does not collide, and the cell of its candidate head holds food then.
\<close>

definition eats :: "nat \<Rightarrow> pos list \<Rightarrow> server \<Rightarrow> bool" where
  "eats i ds w =
     (case tick_loop [0..<i] (w, [], ds) of
        Inl e \<Rightarrow> False
      | Inr (wa, tka, dsa) \<Rightarrow>
          (case next_head (snd (snakes wa ! i)) of
             Inl e \<Rightarrow> False
           | Inr h \<Rightarrow> \<not> collides h (snakes wa) \<and> h \<in> set (food wa)))"

text \<open>
  What happens between two ticks leaves the body, the counter and the flag of the \<open>i\<close>-th
  snake as they are: commands change the facing only, and new snakes are added after it.
\<close>

definition carries :: "nat \<Rightarrow> server \<Rightarrow> server \<Rightarrow> bool" where
  "carries i w u =
     (i < length (snakes u)
      \<and> body (snd (snakes u ! i)) = body (snd (snakes w ! i))
      \<and> grow (snd (snakes u ! i)) = grow (snd (snakes w ! i))
      \<and> alive (snd (snakes u ! i)) = alive (snd (snakes w ! i)))"

text \<open>A world of one snake heading right.\<close>

definition meal_world :: "pos list \<Rightarrow> int \<Rightarrow> pos list \<Rightarrow> server" where
  "meal_world b g fd = \<lparr>players = [], writers = [(1, 7)],
     snakes = [(1, \<lparr>pid = 1, body = b, dir = ''R'', grow = g, alive = True\<rparr>)],
     next_pid = 2, food = fd\<rparr>"

subsection \<open>Deaths of a tick\<close>

text \<open>The ids of the snakes that are alive in \<open>w\<close> and dead in \<open>w'\<close>, in the order of the
  map.\<close>

definition died_in :: "server \<Rightarrow> server \<Rightarrow> int list" where
  "died_in w w' =
     map (\<lambda>i. fst (snakes w ! i))
       (filter (\<lambda>i. alive (snd (snakes w ! i)) \<and> \<not> alive (snd (snakes w' ! i)))
          [0..<length (snakes w)])"

text \<open>Two registered players; in the tick from the first world to the second, snake 2
  dies.\<close>

definition notice_world :: server where
  "notice_world = \<lparr>players = [], writers = [(1, 7), (2, 8)],
     snakes = [(1, \<lparr>pid = 1, body = [(0, 0)], dir = ''R'', grow = 0, alive = True\<rparr>),
               (2, \<lparr>pid = 2, body = [(2, 0)], dir = ''L'', grow = 0, alive = True\<rparr>)],
     next_pid = 3, food = []\<rparr>"

definition notice_after :: server where
  "notice_after = \<lparr>players = [], writers = [(1, 7), (2, 8)],
     snakes = [(1, \<lparr>pid = 1, body = [(1, 0)], dir = ''R'', grow = 0, alive = True\<rparr>),
               (2, \<lparr>pid = 2, body = [(2, 0)], dir = ''L'', grow = 0, alive = False\<rparr>)],
     next_pid = 3, food = []\<rparr>"

subsection \<open>Three registered transports\<close>

text \<open>A world with one snake, one food item and the transports 7, 8 and 9, and the frame
  that \<open>broadcast_frame\<close> renders for it.\<close>

definition lobby_world :: server where
  "lobby_world = \<lparr>players = [], writers = [(1, 7), (2, 8), (3, 9)],
     snakes = [(1, \<lparr>pid = 1, body = [(0, 0)], dir = ''R'', grow = 0, alive = True\<rparr>)],
     next_pid = 4, food = [(2, 1)]\<rparr>"

definition lobby_frame :: msg where
  "lobby_frame = Frame 30 15
     [''1.............................'',
      ''..*...........................'',
      ''..............................'',
      ''..............................'',
      ''..............................'',
      ''..............................'',
      ''..............................'',
      ''..............................'',
      ''..............................'',
      ''..............................'',
      ''..............................'',
      ''..............................'',
      ''..............................'',
      ''..............................'',
      ''..............................'']"

subsection \<open>The state invariant\<close>

text \<open>A cell of the grid; a snake with a non-empty body of cells of the grid, a facing
  that is a key of \<open>DIRS\<close> and a counter that is not negative; a world whose snakes and
  food are so.\<close>

definition in_grid :: "pos \<Rightarrow> bool" where
  "in_grid c = (0 \<le> fst c \<and> fst c < WIDTH \<and> 0 \<le> snd c \<and> snd c < HEIGHT)"

definition snake_ok :: "snake \<Rightarrow> bool" where
  "snake_ok s =
     (body s \<noteq> [] \<and> list_all in_grid (body s) \<and> DIRS (dir s) \<noteq> None \<and> 0 \<le> grow s)"

definition world_ok :: "server \<Rightarrow> bool" where
  "world_ok w = (list_all (\<lambda>(p, s). snake_ok s) (snakes w) \<and> list_all in_grid (food w))"

text \<open>The grid of characters under construction has \<open>HEIGHT\<close> rows of \<open>WIDTH\<close> characters.\<close>

definition rows_ok :: "string list \<Rightarrow> bool" where
  "rows_ok rows = (length rows = nat HEIGHT \<and> list_all (\<lambda>r. length r = nat WIDTH) rows)"

text \<open>A snake at the right edge of the bottom row, about to wrap onto food.\<close>

definition yard_world :: server where
  "yard_world = \<lparr>players = [(0, 1)], writers = [(1, 7)],
     snakes = [(1, \<lparr>pid = 1, body = [(29, 14), (28, 14)], dir = ''R'', grow = 0, alive = True\<rparr>)],
     next_pid = 2, food = [(0, 14)]\<rparr>"

subsection \<open>Dictionaries\<close>

text \<open>The keys of a Python dictionary are distinct; for the association lists of the
  model this is a property of the state, kept by every operation.\<close>

definition dicts_ok :: "server \<Rightarrow> bool" where
  "dicts_ok w = (distinct (map fst (snakes w)) \<and> distinct (map fst (writers w)))"

section \<open>Properties\<close>

subsection \<open>The table of directions\<close>

lemma DIRS_simps:
  "DIRS ''U'' = Some (0, -1)" "DIRS ''D'' = Some (0, 1)"
  "DIRS ''L'' = Some (-1, 0)" "DIRS ''R'' = Some (1, 0)"
  by (simp_all add: DIRS_def DIRS_items_def)

lemma DIRS_dom: "DIRS k \<noteq> None \<longleftrightarrow> k \<in> {''U'', ''D'', ''L'', ''R''}"
  by (auto simp: DIRS_def DIRS_items_def)

subsection \<open>Commands\<close>

text \<open>
  C1. The specification says that no command can set the facing of a snake of two or more
  segments to the exact inverse of its neck-to-head vector. The code compares the requested
  vector with \<open>body[0] - body[1]\<close> itself, not with its inverse: for the snake that has just
  moved right, the vector of \<open>L\<close> is the inverse of the neck-to-head vector \<open>(1, 0)\<close>, and the
  command \<open>L\<close> is accepted and sets the facing to \<open>L\<close>.
\<close>

theorem c1_reversal_is_accepted:
  "DIRS ''L'' = Some (- fst (neck_to_head (snd (snakes reversal_world ! 0))),
                      - snd (neck_to_head (snd (snakes reversal_world ! 0))))
   \<and> session_step 1 (Line (Some (cmd ''L''))) reversal_world =
       (reversal_world\<lparr>snakes :=
          [(1, \<lparr>pid = 1, body = [(5, 0), (4, 0)], dir = ''L'', grow = 0, alive = True\<rparr>)]\<rparr>, True)"
  by (simp add: session_step_def handle_msg_def apply_cmd_def reversal_world_def cmd_def
      neck_to_head_def DIRS_simps)

text \<open>
  C3. The specification says that a line that parses to a value that is not an object with
  the expected fields is discarded, with the connection open and the world unchanged. A
  line holding the JSON array \<open>[]\<close> parses; \<open>msg.get\<close> then raises outside the inner \<open>try\<close>,
  the \<open>finally\<close> block runs, and the session ends with its snake dead and its transport
  removed from the registration map.
\<close>

theorem c3_non_object_ends_session:
  "session_step 1 (Line (Some (JArr []))) garbage_world =
     (garbage_world\<lparr>snakes :=
        [(1, \<lparr>pid = 1, body = [(5, 0), (4, 0)], dir = ''R'', grow = 0, alive = False\<rparr>)],
        writers := []\<rparr>, False)"
  by (simp add: session_step_def handle_msg_def cleanup_def garbage_world_def)

text \<open>
  C4. The command rule. For a command message naming a direction \<open>d\<close> of \<open>U\<close>, \<open>D\<close>, \<open>L\<close>, \<open>R\<close>,
  received by the session of an alive snake, the session goes on and the only change of
  the world is the facing of that snake, which becomes what the specification's rule
  gives: \<open>d\<close> when the body has fewer than two segments; otherwise \<open>d\<close> if and only if
  \<open>DIRS[d]\<close> differs from \<open>body[0] - body[1]\<close>, the old facing being kept when it does not.
\<close>

theorem c4_direction_rule:
  assumes "map_of (snakes w) p = Some s" and "alive s"
    and "d \<in> {''U'', ''D'', ''L'', ''R''}"
    and "dict_get m ''type'' = Inr (JStr ''cmd'')" and "dict_get m ''dir'' = Inr (JStr d)"
  shows "session_step p (Line (Some m)) w =
           (w\<lparr>snakes := AList.update p (s\<lparr>dir := spec_new_dir s d\<rparr>) (snakes w)\<rparr>, True)"
proof -
  from assms(3) obtain v where v: "DIRS d = Some v"
    using DIRS_dom [of d] by auto
  have triv: "w\<lparr>snakes := AList.update p (s\<lparr>dir := dir s\<rparr>) (snakes w)\<rparr> = w"
    using assms(1) by (simp add: update_triv)
  have "apply_cmd p d w =
          Inr (w\<lparr>snakes := AList.update p (s\<lparr>dir := spec_new_dir s d\<rparr>) (snakes w)\<rparr>)"
    using assms(1,2) v triv
    by (auto simp: apply_cmd_def spec_new_dir_def neck_to_head_def split: prod.splits)
  then show ?thesis
    using assms(4,5) v by (simp add: session_step_def handle_msg_def)
qed

theorem c4_direction_rule_witness:
  "session_step 1 (Line (Some (cmd ''U''))) rule_world =
     (rule_world\<lparr>snakes :=
        [(1, \<lparr>pid = 1, body = [(5, 0), (4, 0)], dir = ''U'', grow = 0, alive = True\<rparr>)]\<rparr>, True)
   \<and> session_step 1 (Line (Some (cmd ''R''))) rule_world = (rule_world, True)"
  using c4_direction_rule [of rule_world 1
      "\<lparr>pid = 1, body = [(5, 0), (4, 0)], dir = ''R'', grow = 0, alive = True\<rparr>" "''U''" "cmd ''U''"]
    c4_direction_rule [of rule_world 1
      "\<lparr>pid = 1, body = [(5, 0), (4, 0)], dir = ''R'', grow = 0, alive = True\<rparr>" "''R''" "cmd ''R''"]
  by (simp add: rule_world_def cmd_def spec_new_dir_def neck_to_head_def DIRS_simps)

subsection \<open>Food and dead snakes\<close>

text \<open>
  C6. The specification says that the body of a dead snake never counts as occupied in
  any later test, the occupancy test of the food search included. \<open>spawn_food\<close> tests the
  bodies of all snakes, without the \<open>alive\<close> filter that the collision test and the renderer
  have: the cell \<open>(3, 3)\<close>, which holds no food and only a dead snake and is free for the
  collision test, is refused, and the food goes to the next drawn cell.
\<close>

theorem c6_dead_snake_blocks_food:
  "\<not> collides (3, 3) (snakes dead_snake_world)
   \<and> (3, 3) \<notin> set (food dead_snake_world)
   \<and> spawn_food [(3, 3), (4, 4)] dead_snake_world =
       Inr (dead_snake_world\<lparr>food := [(4, 4)]\<rparr>, [])"
  by (simp add: collides_def dead_snake_world_def)

subsection \<open>One turn of the loop of game\_tick\<close>

lemma spawn_food_result:
  "spawn_food ds w = Inr (w', ds') \<Longrightarrow> \<exists>c. c \<in> set ds \<and> w' = w\<lparr>food := food w @ [c]\<rparr>"
proof (induction ds)
  case Nil
  then show ?case by simp
next
  case (Cons c ds)
  obtain x y where c: "c = (x, y)" by (cases c)
  show ?case using Cons unfolding c by (auto split: if_splits)
qed

lemma spawn_food_error: "spawn_food ds w = Inl e \<Longrightarrow> e = OutOfDraws"
proof (induction ds)
  case Nil
  then show ?case by simp
next
  case (Cons c ds)
  obtain x y where c: "c = (x, y)" by (cases c)
  show ?case using Cons unfolding c by (auto split: if_splits)
qed

lemma tick_snake_dead:
  assumes "snakes w ! i = (p, s)" and "\<not> alive s"
  shows "tick_snake i (w, tk, ds) = Inr (w, tk, ds)"
  using assms by (simp add: tick_snake_def)

lemma tick_snake_collision:
  assumes "snakes w ! i = (p, s)" and "alive s" and "next_head s = Inr h"
    and "collides h (snakes w)"
  shows "tick_snake i (w, tk, ds) =
           Inr (w\<lparr>snakes := (snakes w)[i := (p, s\<lparr>alive := False\<rparr>)]\<rparr>, tk @ [p], ds)"
  using assms by (simp add: tick_snake_def)

lemma tick_snake_move:
  assumes "snakes w ! i = (p, s)" and "alive s" and "next_head s = Inr h"
    and "\<not> collides h (snakes w)" and "h \<notin> set (food w)" and "i < length (snakes w)"
  shows "tick_snake i (w, tk, ds) =
           Inr (w\<lparr>snakes := (snakes w)[i := (p, advance s h False)]\<rparr>, tk, ds)"
  using assms by (simp add: tick_snake_def advance_def Let_def)

lemma tick_snake_eat:
  assumes "snakes w ! i = (p, s)" and "alive s" and "next_head s = Inr h"
    and "\<not> collides h (snakes w)" and "h \<in> set (food w)" and "i < length (snakes w)"
    and "tick_snake i (w, tk, ds) = Inr (w', tk', ds')"
  shows "\<exists>c. c \<in> set ds \<and>
           w' = w\<lparr>snakes := (snakes w)[i := (p, advance s h True)],
                  food := removeAll h (food w) @ [c]\<rparr> \<and> tk' = tk"
proof -
  let ?w1 = "w\<lparr>snakes := (snakes w)[i := (p, s\<lparr>body := h # body s\<rparr>)]\<rparr>"
  let ?w1' = "?w1\<lparr>food := removeAll h (food ?w1),
                 snakes := (snakes ?w1)[i := (p, s\<lparr>body := h # body s, grow := grow s + 3\<rparr>)]\<rparr>"
  from assms obtain w2 ds2 where sp: "spawn_food ds ?w1' = Inr (w2, ds2)"
    by (auto simp: tick_snake_def Let_def split: sum.splits)
  from spawn_food_result [OF sp] obtain c where c: "c \<in> set ds"
    and w2: "w2 = ?w1'\<lparr>food := food ?w1' @ [c]\<rparr>" by blast
  from assms sp w2 show ?thesis
    by (intro exI [of _ c], cases s) (auto simp: c tick_snake_def Let_def advance_def)
qed

lemma tick_snake_shape:
  assumes "tick_snake i (w, tk, ds) = Inr (w', tk', ds')" and "i < length (snakes w)"
    and "snakes w ! i = (p, s)"
  shows "\<exists>s' fd. w' = w\<lparr>snakes := (snakes w)[i := (p, s')], food := fd\<rparr>
           \<and> (alive s' \<longrightarrow> alive s) \<and> pid s' = pid s"
proof (cases "alive s")
  case False
  have "(snakes w)[i := (p, s)] = snakes w"
    using assms(3) by (metis list_update_id)
  with tick_snake_dead [OF assms(3) False, of tk ds] assms show ?thesis
    by (intro exI [of _ s] exI [of _ "food w"]) simp
next
  case True
  with assms obtain h where h: "next_head s = Inr h"
    by (auto simp: tick_snake_def split: sum.splits)
  show ?thesis
  proof (cases "collides h (snakes w)")
    case c: True
    from tick_snake_collision [OF assms(3) True h c, of tk ds] assms(1) show ?thesis
      by (intro exI [of _ "s\<lparr>alive := False\<rparr>"] exI [of _ "food w"]) simp
  next
    case c: False
    show ?thesis
    proof (cases "h \<in> set (food w)")
      case f: False
      from tick_snake_move [OF assms(3) True h c f assms(2), of tk ds] assms(1) show ?thesis
        by (intro exI [of _ "advance s h False"] exI [of _ "food w"])
          (simp add: advance_def Let_def)
    next
      case f: True
      from tick_snake_eat [OF assms(3) True h c f assms(2) assms(1)] obtain cell where
        "w' = w\<lparr>snakes := (snakes w)[i := (p, advance s h True)],
                   food := removeAll h (food w) @ [cell]\<rparr>" by blast
      then show ?thesis
        by (intro exI [of _ "advance s h True"] exI [of _ "removeAll h (food w) @ [cell]"])
          (simp add: advance_def Let_def)
    qed
  qed
qed

subsection \<open>The whole loop\<close>

lemma tick_loop_append:
  "tick_loop (xs @ ys) st =
     (case tick_loop xs st of Inl e \<Rightarrow> Inl e | Inr st' \<Rightarrow> tick_loop ys st')"
  by (induction xs arbitrary: st) (auto split: sum.splits)

lemma tick_loop_frame:
  assumes "tick_loop is (w, tk, ds) = Inr (w', tk', ds')"
    and "\<forall>i\<in>set is. i < length (snakes w)"
  shows "length (snakes w') = length (snakes w) \<and> writers w' = writers w
           \<and> players w' = players w \<and> next_pid w' = next_pid w
           \<and> map fst (snakes w') = map fst (snakes w)
           \<and> (\<forall>j. j \<notin> set is \<longrightarrow> snakes w' ! j = snakes w ! j)
           \<and> (\<forall>j<length (snakes w). alive (snd (snakes w' ! j)) \<longrightarrow> alive (snd (snakes w ! j)))"
  using assms
proof (induction "is" arbitrary: w tk ds)
  case Nil
  then show ?case by simp
next
  case (Cons i "is")
  from Cons.prems obtain w1 tk1 ds1 where
    step: "tick_snake i (w, tk, ds) = Inr (w1, tk1, ds1)"
    and rest: "tick_loop is (w1, tk1, ds1) = Inr (w', tk', ds')"
    by (auto split: sum.splits)
  from Cons.prems have i: "i < length (snakes w)" by simp
  obtain p s where ps: "snakes w ! i = (p, s)" by (cases "snakes w ! i")
  from tick_snake_shape [OF step i ps] obtain s' fd where
    w1: "w1 = w\<lparr>snakes := (snakes w)[i := (p, s')], food := fd\<rparr>"
    and al: "alive s' \<longrightarrow> alive s" by blast
  have len: "length (snakes w1) = length (snakes w)" by (simp add: w1)
  have fsts: "map fst (snakes w1) = map fst (snakes w)"
    using ps i by (simp add: w1 map_update) (metis fst_conv list_update_id nth_map)
  from Cons.prems len have "\<forall>i\<in>set is. i < length (snakes w1)" by simp
  from Cons.IH [OF rest this] have IH:
    "length (snakes w') = length (snakes w1)" "writers w' = writers w1"
    "players w' = players w1" "next_pid w' = next_pid w1"
    "map fst (snakes w') = map fst (snakes w1)"
    "\<forall>j. j \<notin> set is \<longrightarrow> snakes w' ! j = snakes w1 ! j"
    "\<forall>j<length (snakes w1). alive (snd (snakes w' ! j)) \<longrightarrow> alive (snd (snakes w1 ! j))"
    by blast+
  have mono: "\<forall>j<length (snakes w). alive (snd (snakes w1 ! j)) \<longrightarrow> alive (snd (snakes w ! j))"
    using al ps i by (auto simp: w1 nth_list_update)
  show ?case
    using IH len fsts mono by (auto simp: w1)
qed

lemma upt_split_at: "i < n \<Longrightarrow> [0..<n] = [0..<i] @ i # [Suc i..<n]"
  by (metis less_imp_add_positive upt_add_eq_append upt_conv_Cons less_eq_nat.simps(1))

lemma move_snakes_split:
  assumes "move_snakes ds w = Inr (w', tk', ds')" and "i < length (snakes w)"
  shows "\<exists>wa tka dsa wb tkb dsb.
           tick_loop [0..<i] (w, [], ds) = Inr (wa, tka, dsa)
         \<and> tick_snake i (wa, tka, dsa) = Inr (wb, tkb, dsb)
         \<and> tick_loop [Suc i..<length (snakes w)] (wb, tkb, dsb) = Inr (w', tk', ds')
         \<and> length (snakes wa) = length (snakes w)
         \<and> snakes wa ! i = snakes w ! i
         \<and> snakes wa = take i (snakes w') @ drop i (snakes w)
         \<and> snakes w' ! i = snakes wb ! i"
proof -
  let ?n = "length (snakes w)"
  from assms have run: "tick_loop ([0..<i] @ i # [Suc i..<?n]) (w, [], ds) = Inr (w', tk', ds')"
    using upt_split_at [OF assms(2)] by (simp add: move_snakes_def)
  then obtain wa tka dsa where
    a: "tick_loop [0..<i] (w, [], ds) = Inr (wa, tka, dsa)"
    and a': "tick_loop (i # [Suc i..<?n]) (wa, tka, dsa) = Inr (w', tk', ds')"
    unfolding tick_loop_append by (auto split: sum.splits)
  from a' obtain wb tkb dsb where
    b: "tick_snake i (wa, tka, dsa) = Inr (wb, tkb, dsb)"
    and c: "tick_loop [Suc i..<?n] (wb, tkb, dsb) = Inr (w', tk', ds')"
    by (auto split: sum.splits)
  have fa: "length (snakes wa) = ?n" "\<forall>j. j \<notin> set [0..<i] \<longrightarrow> snakes wa ! j = snakes w ! j"
    using tick_loop_frame [OF a] assms(2) by auto
  obtain p s where ps: "snakes wa ! i = (p, s)" by (cases "snakes wa ! i")
  from tick_snake_shape [OF b _ ps] fa(1) assms(2) obtain s' fd where
    wb: "wb = wa\<lparr>snakes := (snakes wa)[i := (p, s')], food := fd\<rparr>" by auto
  have fb: "length (snakes wb) = ?n" "\<forall>j. j \<noteq> i \<longrightarrow> snakes wb ! j = snakes wa ! j"
    using fa(1) by (auto simp: wb)
  have fc: "length (snakes w') = ?n" "\<forall>j. j \<notin> set [Suc i..<?n] \<longrightarrow> snakes w' ! j = snakes wb ! j"
    using tick_loop_frame [OF c] fb(1) by auto
  have at_i: "snakes wa ! i = snakes w ! i" using fa(2) by simp
  have after_i: "snakes w' ! i = snakes wb ! i" using fc(2) by simp
  have before: "\<forall>j<i. snakes wa ! j = snakes w' ! j" using fb(2) fc(2) by simp
  have "snakes wa = take i (snakes w') @ drop i (snakes w)"
  proof (rule nth_equalityI)
    show "length (snakes wa) = length (take i (snakes w') @ drop i (snakes w))"
      using fa(1) fc(1) assms(2) by simp
  next
    fix j assume "j < length (snakes wa)"
    then show "snakes wa ! j = (take i (snakes w') @ drop i (snakes w)) ! j"
      using fa fc(1) before assms(2) by (auto simp: nth_append min_def)
  qed
  with a b c fa(1) at_i after_i show ?thesis by blast
qed

lemma game_tick_Inr:
  "game_tick fails ds w = Inr (w', tr, ds') \<Longrightarrow>
     \<exists>tk. move_snakes ds w = Inr (w', tk, ds') \<and> tr = notify_dead fails (writers w') tk []"
  by (auto simp: game_tick_def split: sum.splits)

lemmas tick_eval = game_tick_def move_snakes_def tick_snake_def next_head_def collides_def
  transport_write_def DIRS_simps WIDTH_def HEIGHT_def

subsection \<open>Collisions\<close>

text \<open>
  C2. The specification says that the collision test of every snake uses one snapshot of
  the bodies taken before any snake moves, so that two snakes moving into the same free
  cell do not collide. In the code the loop moves each snake as soon as it has been
  tested. Here both candidate heads are \<open>(1, 0)\<close>, which no body holds before the tick;
  snake 1 moves there first, and snake 2 is then found to collide and dies.
\<close>

theorem c2_counterexample:
  "next_head (snd (snakes head_on_world ! 0)) = Inr (1, 0)
   \<and> next_head (snd (snakes head_on_world ! 1)) = Inr (1, 0)
   \<and> \<not> collides (1, 0) (snakes head_on_world)
   \<and> game_tick (\<lambda>wr. False) [] head_on_world = Inr (head_on_after, [(8, Dead 2)], [])"
  by (simp add: tick_eval head_on_world_def head_on_after_def)

text \<open>
  C2, as the code has it. The test of the \<open>i\<close>-th snake of the map compares its candidate
  head with the bodies as they are when its turn comes: the snakes before it in the map
  are as the tick leaves them (moved, or dead and then ignored), the snake itself and the
  snakes after it are as they were before the tick. A snake alive before the tick is alive
  after it exactly when its candidate head is in no alive body of that mixed list.
\<close>

theorem c2_collision_in_processing_order:
  assumes "game_tick fails ds w = Inr (w', tr, ds')" and "i < length (snakes w)"
    and "alive (snd (snakes w ! i))"
  shows "\<exists>h. next_head (snd (snakes w ! i)) = Inr h
           \<and> (alive (snd (snakes w' ! i))
                \<longleftrightarrow> \<not> collides h (take i (snakes w') @ drop i (snakes w)))"
proof -
  from game_tick_Inr [OF assms(1)] obtain tk where mv: "move_snakes ds w = Inr (w', tk, ds')"
    by blast
  from move_snakes_split [OF mv assms(2)] obtain wa tka dsa wb tkb dsb where
    b: "tick_snake i (wa, tka, dsa) = Inr (wb, tkb, dsb)"
    and len: "length (snakes wa) = length (snakes w)"
    and at_i: "snakes wa ! i = snakes w ! i"
    and mix: "snakes wa = take i (snakes w') @ drop i (snakes w)"
    and after_i: "snakes w' ! i = snakes wb ! i" by blast
  obtain p s where ps0: "snakes w ! i = (p, s)" by (cases "snakes w ! i")
  with at_i have ps: "snakes wa ! i = (p, s)" by simp
  from ps0 assms(3) have al: "alive s" by simp
  from b ps al obtain h where h: "next_head s = Inr h"
    by (auto simp: tick_snake_def split: sum.splits)
  have i: "i < length (snakes wa)" using len assms(2) by simp
  have "alive (snd (snakes wb ! i)) \<longleftrightarrow> \<not> collides h (snakes wa)"
  proof (cases "collides h (snakes wa)")
    case True
    from tick_snake_collision [OF ps al h True, of tka dsa] b i show ?thesis
      using True by auto
  next
    case False
    from tick_snake_shape [OF b i ps] obtain s' fd where
      wb: "wb = wa\<lparr>snakes := (snakes wa)[i := (p, s')], food := fd\<rparr>" by blast
    from b ps al h False i have "alive (snd (snakes wb ! i))"
      by (auto simp: tick_snake_def Let_def dest!: spawn_food_result split: sum.splits if_splits)
    with False show ?thesis by simp
  qed
  with h ps0 mix after_i show ?thesis by (intro exI [of _ h]) simp
qed

theorem c2_collision_in_processing_order_witness:
  "\<exists>h. next_head (snd (snakes head_on_world ! 1)) = Inr h
     \<and> (alive (snd (snakes head_on_after ! 1))
          \<longleftrightarrow> \<not> collides h (take 1 (snakes head_on_after) @ drop 1 (snakes head_on_world)))"
  using c2_collision_in_processing_order [of "\<lambda>wr. False" "[]" head_on_world head_on_after
      "[(8, Dead 2)]" "[]" 1]
  by (simp add: tick_eval head_on_world_def head_on_after_def)

lemma next_head_body: "next_head s = Inr h \<Longrightarrow> body s \<noteq> []"
  by (auto simp: next_head_def split: option.splits prod.splits list.splits)

lemma collidesI:
  "(p, s) \<in> set sns \<Longrightarrow> alive s \<Longrightarrow> h \<in> set (body s) \<Longrightarrow> collides h sns"
  by (auto simp: collides_def list_ex_iff)

text \<open>
  C5. When the candidate head of an alive snake is the cell of its own last segment, the
  collision test finds that cell in the snake's own body, which still holds the tail: the
  snake is marked dead in this tick, and its body stays as it was.
\<close>

theorem c5_own_tail_is_fatal:
  assumes "game_tick fails ds w = Inr (w', tr, ds')" and "i < length (snakes w)"
    and "snakes w ! i = (p, s)" and "alive s"
    and "next_head s = Inr h" and "h = last (body s)"
  shows "snakes w' ! i = (p, s\<lparr>alive := False\<rparr>)"
proof -
  from game_tick_Inr [OF assms(1)] obtain tk where mv: "move_snakes ds w = Inr (w', tk, ds')"
    by blast
  from move_snakes_split [OF mv assms(2)] obtain wa tka dsa wb tkb dsb where
    b: "tick_snake i (wa, tka, dsa) = Inr (wb, tkb, dsb)"
    and len: "length (snakes wa) = length (snakes w)"
    and at_i: "snakes wa ! i = snakes w ! i"
    and after_i: "snakes w' ! i = snakes wb ! i" by blast
  have ps: "snakes wa ! i = (p, s)" using at_i assms(3) by simp
  have i: "i < length (snakes wa)" using len assms(2) by simp
  have "h \<in> set (body s)"
    using next_head_body [OF assms(5)] assms(6) by simp
  moreover have "(p, s) \<in> set (snakes wa)"
    using ps i by (metis nth_mem)
  ultimately have "collides h (snakes wa)"
    using assms(4) by (rule collidesI [rotated 2])
  from tick_snake_collision [OF ps assms(4,5) this, of tka dsa] b i after_i show ?thesis
    by auto
qed

theorem c5_own_tail_is_fatal_witness:
  "next_head (snd (snakes ring_world ! 0)) = Inr (last (body (snd (snakes ring_world ! 0))))
   \<and> game_tick (\<lambda>wr. False) [] ring_world =
       Inr (ring_world\<lparr>snakes := [(1, \<lparr>pid = 1, body = [(1, 0), (1, 1), (0, 1), (0, 0)],
              dir = ''L'', grow = 0, alive = False\<rparr>)]\<rparr>, [(7, Dead 1)], [])
   \<and> snakes (ring_world\<lparr>snakes := [(1, \<lparr>pid = 1, body = [(1, 0), (1, 1), (0, 1), (0, 0)],
              dir = ''L'', grow = 0, alive = False\<rparr>)]\<rparr>) ! 0 =
       (1, \<lparr>pid = 1, body = [(1, 0), (1, 1), (0, 1), (0, 0)], dir = ''L'', grow = 0,
            alive = False\<rparr>)"
  using c5_own_tail_is_fatal [of "\<lambda>wr. False" "[]" ring_world
      "ring_world\<lparr>snakes := [(1, \<lparr>pid = 1, body = [(1, 0), (1, 1), (0, 1), (0, 0)],
              dir = ''L'', grow = 0, alive = False\<rparr>)]\<rparr>" "[(7, Dead 1)]" "[]" 0 1
      "\<lparr>pid = 1, body = [(1, 0), (1, 1), (0, 1), (0, 0)], dir = ''L'', grow = 0, alive = True\<rparr>"
      "(0, 0)"]
  by (simp add: tick_eval ring_world_def)

subsection \<open>Growth\<close>

lemma game_tick_survivor:
  assumes "game_tick fails ds w = Inr (w', tr, ds')" and "i < length (snakes w)"
    and "alive (snd (snakes w' ! i))"
  shows "alive (snd (snakes w ! i))
         \<and> (\<exists>h. next_head (snd (snakes w ! i)) = Inr h
                \<and> snd (snakes w' ! i) = advance (snd (snakes w ! i)) h (eats i ds w))"
proof -
  from game_tick_Inr [OF assms(1)] obtain tk where mv: "move_snakes ds w = Inr (w', tk, ds')"
    by blast
  from move_snakes_split [OF mv assms(2)] obtain wa tka dsa wb tkb dsb where
    a: "tick_loop [0..<i] (w, [], ds) = Inr (wa, tka, dsa)"
    and b: "tick_snake i (wa, tka, dsa) = Inr (wb, tkb, dsb)"
    and len: "length (snakes wa) = length (snakes w)"
    and at_i: "snakes wa ! i = snakes w ! i"
    and after_i: "snakes w' ! i = snakes wb ! i" by blast
  obtain p s where ps0: "snakes w ! i = (p, s)" by (cases "snakes w ! i")
  have ps: "snakes wa ! i = (p, s)" using at_i ps0 by simp
  have i: "i < length (snakes wa)" using len assms(2) by simp
  have al: "alive s"
  proof (rule ccontr)
    assume "\<not> alive s"
    from tick_snake_dead [OF ps this, of tka dsa] b have "wb = wa" by simp
    with after_i ps \<open>\<not> alive s\<close> assms(3) show False by simp
  qed
  from b ps al obtain h where h: "next_head s = Inr h"
    by (auto simp: tick_snake_def split: sum.splits)
  have nc: "\<not> collides h (snakes wa)"
  proof
    assume "collides h (snakes wa)"
    from tick_snake_collision [OF ps al h this, of tka dsa] b i after_i assms(3)
    show False by auto
  qed
  have e: "eats i ds w = (h \<in> set (food wa))"
    using a ps h nc by (simp add: eats_def)
  have "snd (snakes wb ! i) = advance s h (h \<in> set (food wa))"
  proof (cases "h \<in> set (food wa)")
    case True
    from tick_snake_eat [OF ps al h nc True i b] i True show ?thesis by auto
  next
    case False
    from tick_snake_move [OF ps al h nc False i, of tka dsa] b i False show ?thesis by auto
  qed
  with al h e ps0 after_i show ?thesis by simp
qed

lemma advance_fed:
  "grow s = 0 \<Longrightarrow> length (body (advance s h True)) = length (body s) + 1
     \<and> grow (advance s h True) = 2"
  by (simp add: advance_def)

lemma advance_growing:
  "0 < grow s \<Longrightarrow> length (body (advance s h False)) = length (body s) + 1
     \<and> grow (advance s h False) = grow s - 1"
  by (simp add: advance_def)

lemma advance_steady:
  "grow s = 0 \<Longrightarrow> length (body (advance s h False)) = length (body s)
     \<and> grow (advance s h False) = 0"
  by (simp add: advance_def)

lemma meal_ticks:
  "game_tick (\<lambda>wr. False) [(9, 9)] (meal_world [(0, 0)] 0 [(1, 0)]) =
     Inr (meal_world [(1, 0), (0, 0)] 2 [(9, 9)], [], [])"
  "game_tick (\<lambda>wr. False) [] (meal_world [(1, 0), (0, 0)] 2 [(9, 9)]) =
     Inr (meal_world [(2, 0), (1, 0), (0, 0)] 1 [(9, 9)], [], [])"
  "game_tick (\<lambda>wr. False) [] (meal_world [(2, 0), (1, 0), (0, 0)] 1 [(9, 9)]) =
     Inr (meal_world [(3, 0), (2, 0), (1, 0), (0, 0)] 0 [(9, 9)], [], [])"
  "game_tick (\<lambda>wr. False) [] (meal_world [(3, 0), (2, 0), (1, 0), (0, 0)] 0 [(9, 9)]) =
     Inr (meal_world [(4, 0), (3, 0), (2, 0), (1, 0)] 0 [(9, 9)], [], [])"
  by (simp_all add: tick_eval meal_world_def)

lemma meal_eats:
  "eats 0 [(9, 9)] (meal_world [(0, 0)] 0 [(1, 0)])"
  "\<not> eats 0 [] (meal_world [(1, 0), (0, 0)] 2 [(9, 9)])"
  "\<not> eats 0 [] (meal_world [(2, 0), (1, 0), (0, 0)] 1 [(9, 9)])"
  "\<not> eats 0 [] (meal_world [(3, 0), (2, 0), (1, 0), (0, 0)] 0 [(9, 9)])"
  by (simp_all add: eats_def tick_eval meal_world_def)

text \<open>
  C7. A snake with no pending growth eats in one tick and in none of the three ticks
  that follow, and is alive at the end. Finding the food raises the counter by 3, and the
  tail rule of the same tick takes 1 of it and keeps the tail, so the tick of the meal is
  the first of three ticks of growth: after it the body has one segment more and the
  counter is 2, after the next tick two more and 1, after the third three more and 0.
  The fourth tick leaves the length at three more and the counter at 0, the state in which
  every later tick without food does the same. Between the ticks the sessions may act
  (\<open>carries\<close>).
\<close>

theorem c7_one_food_three_segments:
  assumes "i < length (snakes u0)" and "grow (snd (snakes u0 ! i)) = 0"
    and "game_tick f1 d1 u0 = Inr (w1, tr1, r1)" and "eats i d1 u0"
    and "carries i w1 u1"
    and "game_tick f2 d2 u1 = Inr (w2, tr2, r2)" and "\<not> eats i d2 u1"
    and "carries i w2 u2"
    and "game_tick f3 d3 u2 = Inr (w3, tr3, r3)" and "\<not> eats i d3 u2"
    and "carries i w3 u3"
    and "game_tick f4 d4 u3 = Inr (w4, tr4, r4)" and "\<not> eats i d4 u3"
    and "alive (snd (snakes w4 ! i))"
  shows "length (body (snd (snakes w1 ! i))) = length (body (snd (snakes u0 ! i))) + 1
       \<and> grow (snd (snakes w1 ! i)) = 2
       \<and> length (body (snd (snakes w2 ! i))) = length (body (snd (snakes u0 ! i))) + 2
       \<and> grow (snd (snakes w2 ! i)) = 1
       \<and> length (body (snd (snakes w3 ! i))) = length (body (snd (snakes u0 ! i))) + 3
       \<and> grow (snd (snakes w3 ! i)) = 0
       \<and> length (body (snd (snakes w4 ! i))) = length (body (snd (snakes u0 ! i))) + 3
       \<and> grow (snd (snakes w4 ! i)) = 0"
proof -
  have i3: "i < length (snakes u3)" and i2: "i < length (snakes u2)"
    and i1: "i < length (snakes u1)"
    using assms(5,8,11) by (simp_all add: carries_def)
  from game_tick_survivor [OF assms(12) i3 assms(14)] obtain h4 where
    a3: "alive (snd (snakes u3 ! i))"
    and s4: "snd (snakes w4 ! i) = advance (snd (snakes u3 ! i)) h4 False"
    using assms(13) by auto
  from a3 assms(11) have "alive (snd (snakes w3 ! i))" by (simp add: carries_def)
  from game_tick_survivor [OF assms(9) i2 this] obtain h3 where
    a2: "alive (snd (snakes u2 ! i))"
    and s3: "snd (snakes w3 ! i) = advance (snd (snakes u2 ! i)) h3 False"
    using assms(10) by auto
  from a2 assms(8) have "alive (snd (snakes w2 ! i))" by (simp add: carries_def)
  from game_tick_survivor [OF assms(6) i1 this] obtain h2 where
    a1: "alive (snd (snakes u1 ! i))"
    and s2: "snd (snakes w2 ! i) = advance (snd (snakes u1 ! i)) h2 False"
    using assms(7) by auto
  from a1 assms(5) have "alive (snd (snakes w1 ! i))" by (simp add: carries_def)
  from game_tick_survivor [OF assms(3) assms(1) this] obtain h1 where
    s1: "snd (snakes w1 ! i) = advance (snd (snakes u0 ! i)) h1 True"
    using assms(4) by auto
  let ?n = "length (body (snd (snakes u0 ! i)))"
  have r1: "length (body (snd (snakes w1 ! i))) = ?n + 1" "grow (snd (snakes w1 ! i)) = 2"
    using advance_fed [OF assms(2), of h1] by (simp_all add: s1)
  have c1: "length (body (snd (snakes u1 ! i))) = ?n + 1" "grow (snd (snakes u1 ! i)) = 2"
    using r1 assms(5) by (simp_all add: carries_def)
  have r2: "length (body (snd (snakes w2 ! i))) = ?n + 2" "grow (snd (snakes w2 ! i)) = 1"
    using advance_growing [of "snd (snakes u1 ! i)" h2] c1 by (simp_all add: s2)
  have c2: "length (body (snd (snakes u2 ! i))) = ?n + 2" "grow (snd (snakes u2 ! i)) = 1"
    using r2 assms(8) by (simp_all add: carries_def)
  have r3: "length (body (snd (snakes w3 ! i))) = ?n + 3" "grow (snd (snakes w3 ! i)) = 0"
    using advance_growing [of "snd (snakes u2 ! i)" h3] c2 by (simp_all add: s3)
  have c3: "length (body (snd (snakes u3 ! i))) = ?n + 3" "grow (snd (snakes u3 ! i)) = 0"
    using r3 assms(11) by (simp_all add: carries_def)
  have r4: "length (body (snd (snakes w4 ! i))) = ?n + 3" "grow (snd (snakes w4 ! i)) = 0"
    using advance_steady [of "snd (snakes u3 ! i)" h4] c3 by (simp_all add: s4)
  from r1 r2 r3 r4 show ?thesis by simp
qed

theorem c7_one_food_three_segments_witness:
  "length (body (snd (snakes (meal_world [(1, 0), (0, 0)] 2 [(9, 9)]) ! 0))) = 2
   \<and> length (body (snd (snakes (meal_world [(2, 0), (1, 0), (0, 0)] 1 [(9, 9)]) ! 0))) = 3
   \<and> length (body (snd (snakes (meal_world [(3, 0), (2, 0), (1, 0), (0, 0)] 0 [(9, 9)]) ! 0))) = 4
   \<and> length (body (snd (snakes (meal_world [(4, 0), (3, 0), (2, 0), (1, 0)] 0 [(9, 9)]) ! 0))) = 4
   \<and> game_tick (\<lambda>wr. False) [(9, 9)] (meal_world [(0, 0)] 0 [(1, 0)]) =
       Inr (meal_world [(1, 0), (0, 0)] 2 [(9, 9)], [], [])"
  using c7_one_food_three_segments [of 0 "meal_world [(0, 0)] 0 [(1, 0)]"
      "\<lambda>wr. False" "[(9, 9)]" "meal_world [(1, 0), (0, 0)] 2 [(9, 9)]" "[]" "[]"
      "meal_world [(1, 0), (0, 0)] 2 [(9, 9)]"
      "\<lambda>wr. False" "[]" "meal_world [(2, 0), (1, 0), (0, 0)] 1 [(9, 9)]" "[]" "[]"
      "meal_world [(2, 0), (1, 0), (0, 0)] 1 [(9, 9)]"
      "\<lambda>wr. False" "[]" "meal_world [(3, 0), (2, 0), (1, 0), (0, 0)] 0 [(9, 9)]" "[]" "[]"
      "meal_world [(3, 0), (2, 0), (1, 0), (0, 0)] 0 [(9, 9)]"
      "\<lambda>wr. False" "[]" "meal_world [(4, 0), (3, 0), (2, 0), (1, 0)] 0 [(9, 9)]" "[]" "[]"]
    meal_ticks meal_eats
  by (simp add: carries_def, simp add: meal_world_def)

subsection \<open>Death notifications\<close>

lemma notify_dead_eq:
  "notify_dead fails wrs ps tr =
     tr @ concat (map (\<lambda>p. case map_of wrs p of None \<Rightarrow> [] | Some wr \<Rightarrow> [(wr, Dead p)]) ps)"
  by (induction ps arbitrary: tr) (auto simp: transport_write_def split: option.splits)

lemma alive_advance: "alive (advance s h a) = alive s"
  by (simp add: advance_def Let_def)

lemma tick_snake_kill:
  assumes "tick_snake i (w, tk, ds) = Inr (w1, tk1, ds1)" and "i < length (snakes w)"
    and "snakes w ! i = (p, s)"
  shows "tk1 = tk @ (if alive s \<and> \<not> alive (snd (snakes w1 ! i)) then [p] else [])"
proof (cases "alive s")
  case False
  with tick_snake_dead [OF assms(3) False, of tk ds] assms(1) show ?thesis by simp
next
  case True
  with assms obtain h where h: "next_head s = Inr h"
    by (auto simp: tick_snake_def split: sum.splits)
  show ?thesis
  proof (cases "collides h (snakes w)")
    case c: True
    from tick_snake_collision [OF assms(3) True h c, of tk ds] assms(1,2) True show ?thesis
      by auto
  next
    case c: False
    show ?thesis
    proof (cases "h \<in> set (food w)")
      case f: False
      from tick_snake_move [OF assms(3) True h c f assms(2), of tk ds] assms(1,2) True
      show ?thesis by (auto simp: alive_advance)
    next
      case f: True
      from tick_snake_eat [OF assms(3) True h c f assms(2) assms(1)] assms(2) True
      show ?thesis by (auto simp: alive_advance)
    qed
  qed
qed

lemma tick_loop_kills:
  assumes "tick_loop is (w, tk, ds) = Inr (w', tk', ds')" and "distinct is"
    and "\<forall>i\<in>set is. i < length (snakes w)"
  shows "tk' = tk @ map (\<lambda>i. fst (snakes w ! i))
                  (filter (\<lambda>i. alive (snd (snakes w ! i)) \<and> \<not> alive (snd (snakes w' ! i))) is)"
  using assms
proof (induction "is" arbitrary: w tk ds)
  case Nil
  then show ?case by simp
next
  case (Cons i "is")
  from Cons.prems obtain w1 tk1 ds1 where
    step: "tick_snake i (w, tk, ds) = Inr (w1, tk1, ds1)"
    and rest: "tick_loop is (w1, tk1, ds1) = Inr (w', tk', ds')"
    by (auto split: sum.splits)
  from Cons.prems have i: "i < length (snakes w)" and ni: "i \<notin> set is" and d: "distinct is"
    by simp_all
  obtain p s where ps: "snakes w ! i = (p, s)" by (cases "snakes w ! i")
  from tick_snake_shape [OF step i ps] obtain s' fd where
    w1: "w1 = w\<lparr>snakes := (snakes w)[i := (p, s')], food := fd\<rparr>" by blast
  have len: "length (snakes w1) = length (snakes w)" by (simp add: w1)
  with Cons.prems have bound: "\<forall>j\<in>set is. j < length (snakes w1)" by simp
  have same: "\<forall>j\<in>set is. snakes w1 ! j = snakes w ! j"
  proof
    fix j assume "j \<in> set is"
    with ni have "i \<noteq> j" by auto
    then show "snakes w1 ! j = snakes w ! j" by (simp add: w1)
  qed
  from tick_loop_frame [OF rest bound] ni have last_i: "snakes w' ! i = snakes w1 ! i"
    by blast
  have k1: "tk1 = tk @ (if alive s \<and> \<not> alive (snd (snakes w' ! i)) then [p] else [])"
    using tick_snake_kill [OF step i ps] last_i by simp
  have "tk' = tk1 @ map (\<lambda>j. fst (snakes w1 ! j))
                (filter (\<lambda>j. alive (snd (snakes w1 ! j)) \<and> \<not> alive (snd (snakes w' ! j))) is)"
    by (rule Cons.IH [OF rest d bound])
  also have "map (\<lambda>j. fst (snakes w1 ! j))
                (filter (\<lambda>j. alive (snd (snakes w1 ! j)) \<and> \<not> alive (snd (snakes w' ! j))) is)
           = map (\<lambda>j. fst (snakes w ! j))
                (filter (\<lambda>j. alive (snd (snakes w ! j)) \<and> \<not> alive (snd (snakes w' ! j))) is)"
    using same by (intro map_cong filter_cong) auto
  finally show ?case using k1 ps by simp
qed

lemma move_snakes_kills:
  assumes "move_snakes ds w = Inr (w', tk, ds')"
  shows "tk = died_in w w'"
  using tick_loop_kills [of "[0..<length (snakes w)]" w "[]" ds w' tk ds'] assms
  by (simp add: move_snakes_def died_in_def)

lemma distinct_died_in:
  assumes "distinct (map fst (snakes w))"
  shows "distinct (died_in w w')"
proof -
  have "inj_on (\<lambda>i. fst (snakes w ! i)) {i. i < length (snakes w)}"
  proof (rule inj_onI)
    fix i j
    assume "i \<in> {i. i < length (snakes w)}" "j \<in> {i. i < length (snakes w)}"
      and "fst (snakes w ! i) = fst (snakes w ! j)"
    then have "map fst (snakes w) ! i = map fst (snakes w) ! j" and "i < length (map fst (snakes w))"
      and "j < length (map fst (snakes w))" by simp_all
    with assms show "i = j" by (metis nth_eq_iff_index_eq)
  qed
  then have "inj_on (\<lambda>i. fst (snakes w ! i))
      (set (filter (\<lambda>i. alive (snd (snakes w ! i)) \<and> \<not> alive (snd (snakes w' ! i)))
        [0..<length (snakes w)]))"
    by (rule inj_on_subset) auto
  then show ?thesis by (simp add: died_in_def distinct_map)
qed

lemma notices_count:
  assumes "distinct ps"
  shows "length (filter (\<lambda>(wr, m). m = Dead p)
           (concat (map (\<lambda>q. case map_of wrs q of None \<Rightarrow> [] | Some wr \<Rightarrow> [(wr, Dead q)]) ps)))
         = (if p \<in> set ps \<and> map_of wrs p \<noteq> None then 1 else 0)"
  using assms by (induction ps) (auto split: option.splits)

lemma notices_target:
  assumes "(wr, m) \<in> set (concat (map (\<lambda>q. case map_of wrs q of None \<Rightarrow> []
                                          | Some wr \<Rightarrow> [(wr, Dead q)]) ps))"
  shows "\<exists>p. p \<in> set ps \<and> m = Dead p \<and> map_of wrs p = Some wr"
  using assms by (auto split: option.splits)

text \<open>
  C8. The ids of a dictionary are distinct. In a tick that returns, the list \<open>to_kill\<close>
  holds exactly the snakes that died in this tick, each once. For every id, the number of
  writes of its death message is 1 if the snake died in this tick and its id has a
  registered transport, and 0 otherwise; every write of the tick is such a message and
  goes to the transport registered under the id it names. Whether the writes fail changes
  neither the world, nor the writes attempted, nor the draws left: the tick gives the same
  result under any other failure pattern \<open>fails'\<close>.
\<close>

theorem c8_death_notices:
  assumes "distinct (map fst (snakes w))" and "game_tick fails ds w = Inr (w', tr, ds')"
  shows "move_snakes ds w = Inr (w', died_in w w', ds')
       \<and> distinct (died_in w w')
       \<and> (\<forall>p. length (filter (\<lambda>(wr, m). m = Dead p) tr)
                = (if p \<in> set (died_in w w') \<and> map_of (writers w) p \<noteq> None then 1 else 0))
       \<and> (\<forall>wr m. (wr, m) \<in> set tr \<longrightarrow>
             (\<exists>p. p \<in> set (died_in w w') \<and> m = Dead p \<and> map_of (writers w) p = Some wr))
       \<and> game_tick fails' ds w = Inr (w', tr, ds')"
proof -
  from game_tick_Inr [OF assms(2)] obtain tk where mv: "move_snakes ds w = Inr (w', tk, ds')"
    and tr: "tr = notify_dead fails (writers w') tk []" by blast
  have tk: "tk = died_in w w'" by (rule move_snakes_kills [OF mv])
  have wr: "writers w' = writers w"
    using tick_loop_frame [of "[0..<length (snakes w)]" w "[]" ds w' tk ds'] mv
    by (simp add: move_snakes_def)
  have d: "distinct (died_in w w')" by (rule distinct_died_in [OF assms(1)])
  have tr': "tr = concat (map (\<lambda>q. case map_of (writers w) q of None \<Rightarrow> []
                                  | Some wr \<Rightarrow> [(wr, Dead q)]) (died_in w w'))"
    by (simp add: tr tk wr notify_dead_eq)
  have same: "game_tick fails' ds w = Inr (w', tr, ds')"
    using mv by (simp add: game_tick_def tr' tk wr notify_dead_eq)
  have count: "\<forall>p. length (filter (\<lambda>(wr, m). m = Dead p) tr)
                = (if p \<in> set (died_in w w') \<and> map_of (writers w) p \<noteq> None then 1 else 0)"
  proof
    fix p
    show "length (filter (\<lambda>(wr, m). m = Dead p) tr)
            = (if p \<in> set (died_in w w') \<and> map_of (writers w) p \<noteq> None then 1 else 0)"
      unfolding tr' by (rule notices_count [OF d])
  qed
  have target: "\<forall>wr m. (wr, m) \<in> set tr \<longrightarrow>
             (\<exists>p. p \<in> set (died_in w w') \<and> m = Dead p \<and> map_of (writers w) p = Some wr)"
  proof (intro allI impI)
    fix wr m
    assume "(wr, m) \<in> set tr"
    then show "\<exists>p. p \<in> set (died_in w w') \<and> m = Dead p \<and> map_of (writers w) p = Some wr"
      unfolding tr' by (rule notices_target)
  qed
  from mv tk have "move_snakes ds w = Inr (w', died_in w w', ds')" by simp
  with d count target same show ?thesis by blast
qed

theorem c8_death_notices_witness:
  "game_tick (\<lambda>wr. True) [] notice_world = Inr (notice_after, [(8, Dead 2)], [])
   \<and> died_in notice_world notice_after = [2]
   \<and> move_snakes [] notice_world = Inr (notice_after, [2], [])"
  using c8_death_notices [of notice_world "\<lambda>wr. False" "[]" notice_after "[(8, Dead 2)]" "[]"
      "\<lambda>wr. True"]
  by (simp add: tick_eval notice_world_def notice_after_def died_in_def)

subsection \<open>The broadcast pass\<close>

lemma send_all_eq:
  "send_all fails data ws (tr, dead) =
     (tr @ map (\<lambda>(p, wr). (wr, data)) ws,
      dead @ map fst (filter (\<lambda>(p, wr). fails wr) ws))"
  by (induction ws arbitrary: tr dead) (auto simp: transport_write_def)

lemma drop_dead_eq:
  assumes "distinct ps" and "set ps \<subseteq> fst ` set wrs"
  shows "drop_dead ps wrs = Inr (filter (\<lambda>(p, wr). p \<notin> set ps) wrs)"
  using assms
proof (induction ps arbitrary: wrs)
  case Nil
  then show ?case by simp
next
  case (Cons p ps)
  from Cons.prems have "p \<in> fst ` set wrs" by simp
  then have k: "map_of wrs p \<noteq> None" by (simp add: map_of_eq_None_iff)
  have del: "AList.delete p wrs = filter (\<lambda>(q, wr). q \<noteq> p) wrs"
    by (induction wrs) auto
  have sub: "set ps \<subseteq> fst ` set (AList.delete p wrs)"
    using Cons.prems by (auto simp: del image_iff) force
  from Cons.prems have "distinct ps" by simp
  from Cons.IH [OF this sub] k show ?case
    by (auto simp: del_key_def del intro!: filter_cong)
qed

lemma failed_keys:
  assumes "distinct (map fst wrs)"
  shows "filter (\<lambda>(p, wr). p \<notin> set (map fst (filter (\<lambda>(p, wr). fails wr) wrs))) wrs
         = filter (\<lambda>(p, wr). \<not> fails wr) wrs"
proof (rule filter_cong [OF refl])
  fix e assume e: "e \<in> set wrs"
  obtain p wr where pw: "e = (p, wr)" by (cases e)
  have "p \<in> set (map fst (filter (\<lambda>(p, wr). fails wr) wrs)) \<longleftrightarrow> fails wr"
  proof
    assume "p \<in> set (map fst (filter (\<lambda>(p, wr). fails wr) wrs))"
    then obtain wr' where "(p, wr') \<in> set wrs" and f: "fails wr'" by auto
    with assms e pw have "wr' = wr" by (meson eq_key_imp_eq_value)
    with f show "fails wr" by simp
  next
    assume "fails wr"
    with e pw show "p \<in> set (map fst (filter (\<lambda>(p, wr). fails wr) wrs))" by force
  qed
  then show "(case e of (p, wr) \<Rightarrow> p \<notin> set (map fst (filter (\<lambda>(p, wr). fails wr) wrs)))
             = (case e of (p, wr) \<Rightarrow> \<not> fails wr)"
    by (simp add: pw)
qed

lemma broadcast_frame_eq:
  assumes "distinct (map fst (writers w))" and "render w = Inr data"
  shows "broadcast_frame fails w =
           Inr (w\<lparr>writers := filter (\<lambda>(p, wr). \<not> fails wr) (writers w)\<rparr>,
                map (\<lambda>(p, wr). (wr, data)) (writers w))"
proof -
  let ?dead = "map fst (filter (\<lambda>(p, wr). fails wr) (writers w))"
  have d: "distinct ?dead"
    using assms(1) by (simp add: distinct_map_filter)
  have s: "set ?dead \<subseteq> fst ` set (writers w)" by auto
  have "drop_dead ?dead (writers w) = Inr (filter (\<lambda>(p, wr). \<not> fails wr) (writers w))"
    using drop_dead_eq [OF d s] failed_keys [OF assms(1), of fails] by simp
  then show ?thesis
    using assms(2) by (simp add: broadcast_frame_def send_all_eq)
qed

lemma lobby_render: "render lobby_world = Inr lobby_frame"
  by code_simp

text \<open>
  C9. The ids of a dictionary are distinct. When the frame renders to \<open>data\<close>, the pass
  writes \<open>data\<close> to every transport registered at its start, in the order of the map,
  whether or not earlier writes failed; afterwards the registration map holds exactly the
  transports whose write did not fail, and nothing else of the world has changed: the
  snakes, the food and the id counter are as before.
\<close>

theorem c9_broadcast_pass:
  assumes "distinct (map fst (writers w))" and "render w = Inr data"
  shows "broadcast_frame fails w =
           Inr (w\<lparr>writers := filter (\<lambda>(p, wr). \<not> fails wr) (writers w)\<rparr>,
                map (\<lambda>(p, wr). (wr, data)) (writers w))"
  by (rule broadcast_frame_eq [OF assms])

theorem c9_broadcast_pass_witness:
  "broadcast_frame (\<lambda>wr. wr = 8) lobby_world =
     Inr (lobby_world\<lparr>writers := [(1, 7), (3, 9)]\<rparr>,
          [(7, lobby_frame), (8, lobby_frame), (9, lobby_frame)])"
  using c9_broadcast_pass [of lobby_world lobby_frame "\<lambda>wr. wr = 8"] lobby_render
  by (simp add: lobby_world_def)

subsection \<open>The state invariant is kept\<close>

lemma next_head_in_grid: "next_head s = Inr h \<Longrightarrow> in_grid h"
  by (auto simp: next_head_def in_grid_def WIDTH_def HEIGHT_def
      split: option.splits prod.splits list.splits)

lemma next_head_ok: "snake_ok s \<Longrightarrow> \<exists>h. next_head s = Inr h"
  by (auto simp: next_head_def snake_ok_def split: option.splits prod.splits list.splits)

lemma list_all_butlast: "list_all P xs \<Longrightarrow> list_all P (butlast xs)"
  by (auto simp: list_all_iff dest: in_set_butlastD)

lemma list_all_update: "list_all P xs \<Longrightarrow> P v \<Longrightarrow> list_all P (xs[i := v])"
  using set_update_subset_insert [of xs i v] by (auto simp: list_all_iff)

lemma list_all_alist_update:
  "list_all P al \<Longrightarrow> P (k, v) \<Longrightarrow> list_all P (AList.update k v al)"
  by (induction al) auto

lemma list_all_nth: "list_all P xs \<Longrightarrow> i < length xs \<Longrightarrow> P (xs ! i)"
  by (simp add: list_all_length)

lemma advance_ok:
  assumes "snake_ok s" and "in_grid h"
  shows "snake_ok (advance s h a)"
proof -
  from assms have all: "list_all in_grid (h # body s)" by (simp add: snake_ok_def)
  from assms(1) have ne: "butlast (h # body s) \<noteq> []" by (simp add: snake_ok_def)
  from assms(1) have g: "0 \<le> grow s" and d: "DIRS (dir s) \<noteq> None"
    by (simp_all add: snake_ok_def)
  show ?thesis
    using all list_all_butlast [OF all] ne g d
    by (auto simp: advance_def Let_def snake_ok_def)
qed

lemma spawn_food_rest: "spawn_food ds w = Inr (w', ds') \<Longrightarrow> set ds' \<subseteq> set ds"
proof (induction ds)
  case Nil
  then show ?case by simp
next
  case (Cons c ds)
  obtain x y where c: "c = (x, y)" by (cases c)
  show ?case using Cons unfolding c by (auto split: if_splits)
qed

lemma tick_snake_draws:
  "tick_snake i (w, tk, ds) = Inr (w', tk', ds') \<Longrightarrow> set ds' \<subseteq> set ds"
  by (auto simp: tick_snake_def Let_def split: prod.splits if_splits sum.splits
      dest!: spawn_food_rest)

lemma tick_snake_error:
  assumes "tick_snake i (w, tk, ds) = Inl e" and "snake_ok (snd (snakes w ! i))"
  shows "e = OutOfDraws"
proof -
  obtain p s where ps: "snakes w ! i = (p, s)" by (cases "snakes w ! i")
  with assms(2) obtain h where h: "next_head s = Inr h"
    using next_head_ok [of s] by auto
  from assms(1) ps h show ?thesis
    by (auto simp: tick_snake_def Let_def split: if_splits sum.splits dest: spawn_food_error)
qed

lemma tick_snake_ok:
  assumes "tick_snake i (w, tk, ds) = Inr (w', tk', ds')" and "i < length (snakes w)"
    and "world_ok w" and "list_all in_grid ds"
  shows "world_ok w'"
proof -
  obtain p s where ps: "snakes w ! i = (p, s)" by (cases "snakes w ! i")
  from assms(3) have sns: "list_all (\<lambda>(p, s). snake_ok s) (snakes w)"
    and fd: "list_all in_grid (food w)" by (simp_all add: world_ok_def)
  from list_all_nth [OF sns assms(2)] ps have ok: "snake_ok s" by simp
  show ?thesis
  proof (cases "alive s")
    case False
    from tick_snake_dead [OF ps False, of tk ds] assms(1,3) show ?thesis by simp
  next
    case True
    from next_head_ok [OF ok] obtain h where h: "next_head s = Inr h" by blast
    have hg: "in_grid h" by (rule next_head_in_grid [OF h])
    show ?thesis
    proof (cases "collides h (snakes w)")
      case c: True
      from ok have "snake_ok (s\<lparr>alive := False\<rparr>)" by (simp add: snake_ok_def)
      with tick_snake_collision [OF ps True h c, of tk ds] assms(1) sns fd show ?thesis
        by (auto simp: world_ok_def intro!: list_all_update)
    next
      case c: False
      show ?thesis
      proof (cases "h \<in> set (food w)")
        case f: False
        from tick_snake_move [OF ps True h c f assms(2), of tk ds] assms(1) sns fd
          advance_ok [OF ok hg, of False]
        show ?thesis by (auto simp: world_ok_def intro!: list_all_update)
      next
        case f: True
        from tick_snake_eat [OF ps True h c f assms(2) assms(1)] obtain cell where
          cell: "cell \<in> set ds"
          and w': "w' = w\<lparr>snakes := (snakes w)[i := (p, advance s h True)],
                         food := removeAll h (food w) @ [cell]\<rparr>" by blast
        from cell assms(4) have "in_grid cell" by (simp add: list_all_iff)
        moreover from fd have "list_all in_grid (removeAll h (food w))"
          by (simp add: list_all_iff)
        ultimately show ?thesis
          using sns advance_ok [OF ok hg, of True]
          by (auto simp: w' world_ok_def intro!: list_all_update)
      qed
    qed
  qed
qed

lemma tick_loop_ok:
  assumes "world_ok w" and "list_all in_grid ds" and "\<forall>i\<in>set is. i < length (snakes w)"
  shows "case tick_loop is (w, tk, ds) of
           Inl e \<Rightarrow> e = OutOfDraws
         | Inr (w', tk', ds') \<Rightarrow> world_ok w'"
  using assms
proof (induction "is" arbitrary: w tk ds)
  case Nil
  then show ?case by simp
next
  case (Cons i "is")
  from Cons.prems have i: "i < length (snakes w)" by simp
  show ?case
  proof (cases "tick_snake i (w, tk, ds)")
    case (Inl e)
    from Cons.prems(1) i have "snake_ok (snd (snakes w ! i))"
      using list_all_nth [of "\<lambda>(p, s). snake_ok s" "snakes w" i]
      by (auto simp: world_ok_def split: prod.splits)
    from tick_snake_error [OF Inl this] Inl show ?thesis by simp
  next
    case (Inr st)
    obtain w1 tk1 ds1 where st: "st = (w1, tk1, ds1)" by (cases st)
    note step = Inr [unfolded st]
    have ok1: "world_ok w1" by (rule tick_snake_ok [OF step i Cons.prems(1,2)])
    have "set ds1 \<subseteq> set ds" by (rule tick_snake_draws [OF step])
    with Cons.prems(2) have d1: "list_all in_grid ds1" by (auto simp: list_all_iff)
    obtain p s where ps: "snakes w ! i = (p, s)" by (cases "snakes w ! i")
    from tick_snake_shape [OF step i ps] have "length (snakes w1) = length (snakes w)"
      by auto
    with Cons.prems(3) have "\<forall>j\<in>set is. j < length (snakes w1)" by simp
    from Cons.IH [OF ok1 d1 this, of tk1] step show ?thesis by simp
  qed
qed

lemma game_tick_ok:
  assumes "world_ok w" and "list_all in_grid ds"
  shows "case game_tick fails ds w of
           Inl e \<Rightarrow> e = OutOfDraws
         | Inr (w', tr, ds') \<Rightarrow> world_ok w'"
  using tick_loop_ok [OF assms, of "[0..<length (snakes w)]" "[]"]
  by (auto simp: game_tick_def move_snakes_def split: sum.splits)

lemma set_cell_ok:
  assumes "rows_ok rows" and "in_grid (x, y)"
  shows "\<exists>rows'. set_cell rows x y c = Inr rows' \<and> rows_ok rows'"
proof -
  from assms have y: "0 \<le> y" "y < int (length rows)" and x: "0 \<le> x" "x < WIDTH"
    by (simp_all add: rows_ok_def in_grid_def)
  from y have j: "nat y < length rows" by simp
  from assms(1) j have len: "length (rows ! nat y) = nat WIDTH"
    by (simp add: rows_ok_def list_all_length)
  have py: "py_index (length rows) y = Some (nat y)"
    using y by (simp add: py_index_def)
  have px: "py_index (length (rows ! nat y)) x = Some (nat x)"
    using x len by (simp add: py_index_def)
  have "rows_ok (rows[nat y := (rows ! nat y)[nat x := c]])"
    using assms(1) len by (auto simp: rows_ok_def intro!: list_all_update)
  then show ?thesis by (simp add: set_cell_def py px)
qed

lemma draw_ok:
  assumes "rows_ok rows" and "list_all (\<lambda>e. in_grid (fst e)) cs"
  shows "\<exists>rows'. draw cs rows = Inr rows' \<and> rows_ok rows'"
  using assms
proof (induction cs arbitrary: rows)
  case Nil
  then show ?case by simp
next
  case (Cons e cs)
  obtain x y c where e: "e = ((x, y), c)" by (cases e) auto
  from Cons.prems have "in_grid (x, y)" by (simp add: e)
  from set_cell_ok [OF Cons.prems(1) this, of c] obtain rows1 where
    r1: "set_cell rows x y c = Inr rows1" "rows_ok rows1" by blast
  from Cons.prems have "list_all (\<lambda>e. in_grid (fst e)) cs" by simp
  from Cons.IH [OF r1(2) this] r1(1) show ?case by (simp add: e)
qed

lemma snake_cells_in_grid:
  assumes "list_all in_grid (body s)"
  shows "list_all (\<lambda>e. in_grid (fst e)) (snake_cells p s)"
proof -
  have "map fst (snake_cells p s) = map snd (enumerate 0 (body s))"
    by (simp add: snake_cells_def Let_def split_def comp_def)
  then have "map fst (snake_cells p s) = body s" by simp
  with assms show ?thesis
    by (metis (mono_tags, lifting) list_all_iff image_eqI image_set)
qed

lemma draw_snakes_ok:
  assumes "rows_ok rows" and "list_all (\<lambda>(p, s). snake_ok s) sns"
  shows "\<exists>rows'. draw_snakes sns rows = Inr rows' \<and> rows_ok rows'"
  using assms
proof (induction sns arbitrary: rows)
  case Nil
  then show ?case by simp
next
  case (Cons e sns)
  obtain p s where e: "e = (p, s)" by (cases e)
  from Cons.prems have rest: "list_all (\<lambda>(p, s). snake_ok s) sns"
    and "list_all in_grid (body s)" by (simp_all add: e snake_ok_def)
  from draw_ok [OF Cons.prems(1) snake_cells_in_grid [OF this(2), of p]] obtain rows1 where
    r1: "draw (snake_cells p s) rows = Inr rows1" "rows_ok rows1" by blast
  show ?case
    using Cons.IH [OF Cons.prems(1) rest] Cons.IH [OF r1(2) rest] r1(1) by (simp add: e)
qed

lemma render_ok:
  assumes "world_ok w"
  shows "\<exists>rows. render w = Inr (Frame WIDTH HEIGHT rows) \<and> rows_ok rows"
proof -
  let ?blank = "replicate (nat HEIGHT) (replicate (nat WIDTH) (CHR ''.''))"
  have b: "rows_ok ?blank" by (simp add: rows_ok_def list_all_iff)
  from assms have "list_all (\<lambda>e. in_grid (fst e)) (map (\<lambda>c. (c, CHR ''*'')) (food w))"
    by (simp add: world_ok_def list_all_iff)
  from draw_ok [OF b this] obtain rows1 where
    r1: "draw (map (\<lambda>c. (c, CHR ''*'')) (food w)) ?blank = Inr rows1" "rows_ok rows1" by blast
  from assms have "list_all (\<lambda>(p, s). snake_ok s) (snakes w)" by (simp add: world_ok_def)
  from draw_snakes_ok [OF r1(2) this] obtain rows2 where
    r2: "draw_snakes (snakes w) rows1 = Inr rows2" "rows_ok rows2" by blast
  from r1(1) r2 show ?thesis by (simp add: render_def)
qed

lemma accept_ok:
  assumes "world_ok w" and "in_grid (x, y)" and "DIRS d \<noteq> None"
  shows "world_ok (snd (accept r wr x y d w))"
proof -
  have "snake_ok (Snake (next_pid w) x y d)"
    using assms(2,3) by (simp add: snake_ok_def Snake_def)
  with assms(1) show ?thesis
    by (auto simp: accept_def Let_def world_ok_def intro!: list_all_alist_update)
qed

lemma cleanup_ok:
  assumes "world_ok w"
  shows "world_ok (cleanup p w)"
proof (cases "map_of (snakes w) p")
  case None
  with assms show ?thesis by (simp add: cleanup_def world_ok_def)
next
  case (Some s)
  then have "(p, s) \<in> set (snakes w)" by (rule map_of_SomeD)
  with assms have "snake_ok s" by (auto simp: world_ok_def list_all_iff)
  then have "snake_ok (s\<lparr>alive := False\<rparr>)" by (simp add: snake_ok_def)
  with assms Some show ?thesis
    by (auto simp: cleanup_def world_ok_def intro!: list_all_alist_update)
qed

lemma apply_cmd_ok:
  assumes "world_ok w" and "DIRS d \<noteq> None" and "apply_cmd p d w = Inr w'"
  shows "world_ok w'"
proof (cases "map_of (snakes w) p")
  case None
  with assms show ?thesis by (simp add: apply_cmd_def)
next
  case (Some s)
  then have "(p, s) \<in> set (snakes w)" by (rule map_of_SomeD)
  with assms have "snake_ok s" by (auto simp: world_ok_def list_all_iff)
  with assms(2) have "snake_ok (s\<lparr>dir := d\<rparr>)" by (simp add: snake_ok_def)
  with assms(1) have "world_ok (w\<lparr>snakes := AList.update p (s\<lparr>dir := d\<rparr>) (snakes w)\<rparr>)"
    by (auto simp: world_ok_def intro!: list_all_alist_update)
  with assms(1,3) Some show ?thesis
    by (auto simp: apply_cmd_def split: if_splits prod.splits option.splits)
qed

lemma handle_msg_ok:
  assumes "world_ok w" and "handle_msg p m w = Inr w'"
  shows "world_ok w'"
proof -
  have "w' = w \<or> (\<exists>k. DIRS k \<noteq> None \<and> apply_cmd p k w = Inr w')"
    using assms(2) by (auto simp: handle_msg_def split: sum.splits if_splits json.splits)
  then show ?thesis using apply_cmd_ok [OF assms(1)] assms(1) by blast
qed

lemma session_step_ok:
  assumes "world_ok w"
  shows "world_ok (fst (session_step p rd w))"
  using assms cleanup_ok [OF assms, of p] handle_msg_ok [OF assms]
  by (auto simp: session_step_def split: read.splits option.splits sum.splits)

text \<open>
  C10. From a world that satisfies the invariant (every body non-empty and inside the
  grid, every food cell inside the grid, every facing a key of \<open>DIRS\<close>, every counter at
  least 0), each operation gives a world that satisfies it: accepting a connection with a
  drawn cell of the grid and a drawn key of \<open>DIRS\<close>; one step of a session, whatever it
  reads (a command, a line that is dropped, the end of the stream, with the cleanup);
  the cleanup; a tick with draws inside the grid; a broadcast. The tick raises nothing:
  the only result of the model that is not a world is the food search running out of the
  draws it was given, so \<open>body[0]\<close> and \<open>DIRS[s.dir]\<close> are always defined. The renderer
  raises nothing either and gives a frame, so every \<open>rows[y][x]\<close> is in range, and the
  broadcast returns.
\<close>

theorem c10_world_ok_preserved:
  assumes "world_ok w"
  shows "(in_grid (x, y) \<and> DIRS d \<noteq> None \<longrightarrow> world_ok (snd (accept r wr x y d w)))
       \<and> world_ok (fst (session_step p rd w))
       \<and> world_ok (cleanup p w)
       \<and> (list_all in_grid ds \<longrightarrow>
            (case game_tick fails ds w of
               Inl e \<Rightarrow> e = OutOfDraws
             | Inr (w', tr, ds') \<Rightarrow> world_ok w'))
       \<and> (\<exists>rows. render w = Inr (Frame WIDTH HEIGHT rows))
       \<and> (distinct (map fst (writers w)) \<longrightarrow>
            (\<exists>w' tr. broadcast_frame fails w = Inr (w', tr) \<and> world_ok w'))"
proof -
  from render_ok [OF assms] obtain rows where r: "render w = Inr (Frame WIDTH HEIGHT rows)"
    by blast
  have bc: "distinct (map fst (writers w)) \<longrightarrow>
              (\<exists>w' tr. broadcast_frame fails w = Inr (w', tr) \<and> world_ok w')"
  proof
    assume "distinct (map fst (writers w))"
    from broadcast_frame_eq [OF this r, of fails] assms show
      "\<exists>w' tr. broadcast_frame fails w = Inr (w', tr) \<and> world_ok w'"
      by (simp add: world_ok_def)
  qed
  show ?thesis
    using accept_ok [OF assms] session_step_ok [OF assms] cleanup_ok [OF assms]
      game_tick_ok [OF assms] r bc
    by blast
qed

theorem c10_world_ok_preserved_witness:
  "world_ok yard_world
   \<and> world_ok (snd (accept 1 8 3 4 ''U'' yard_world))
   \<and> world_ok (fst (session_step 1 (Line (Some (cmd ''U''))) yard_world))
   \<and> world_ok (cleanup 1 yard_world)
   \<and> (case game_tick (\<lambda>wr. False) [(5, 5)] yard_world of
         Inl e \<Rightarrow> e = OutOfDraws
       | Inr (w', tr, ds') \<Rightarrow> world_ok w')
   \<and> (\<exists>rows. render yard_world = Inr (Frame WIDTH HEIGHT rows))
   \<and> (\<exists>w' tr. broadcast_frame (\<lambda>wr. False) yard_world = Inr (w', tr) \<and> world_ok w')"
proof -
  have ok: "world_ok yard_world"
    by (simp add: world_ok_def snake_ok_def in_grid_def yard_world_def DIRS_simps
        WIDTH_def HEIGHT_def)
  have hyps: "in_grid (3, 4)" "DIRS ''U'' \<noteq> None" "list_all in_grid [(5, 5)]"
    "distinct (map fst (writers yard_world))"
    by (simp_all add: in_grid_def DIRS_simps WIDTH_def HEIGHT_def yard_world_def)
  from c10_world_ok_preserved [OF ok, where x = 3 and y = 4 and d = "''U''" and r = 1
      and wr = 8 and p = 1 and rd = "Line (Some (cmd ''U''))" and ds = "[(5, 5)]"
      and fails = "\<lambda>wr. False"] ok hyps
  show ?thesis by simp
qed

subsection \<open>Dead snakes and distinct ids\<close>

text \<open>The collision test and the renderer skip dead snakes, and a tick leaves a dead
  snake as it is.\<close>

lemma collides_alive_only: "collides h sns = collides h (filter (\<lambda>(p, s). alive s) sns)"
  by (auto simp: collides_def list_ex_iff)

lemma draw_snakes_alive_only:
  "draw_snakes sns rows = draw_snakes (filter (\<lambda>(p, s). alive s) sns) rows"
  by (induction sns rows rule: draw_snakes.induct) (auto split: sum.splits)

lemma dead_stays_dead_in_tick:
  assumes "game_tick fails ds w = Inr (w', tr, ds')" and "i < length (snakes w)"
    and "\<not> alive (snd (snakes w ! i))"
  shows "snakes w' ! i = snakes w ! i"
proof -
  from game_tick_Inr [OF assms(1)] obtain tk where mv: "move_snakes ds w = Inr (w', tk, ds')"
    by blast
  from move_snakes_split [OF mv assms(2)] obtain wa tka dsa wb tkb dsb where
    b: "tick_snake i (wa, tka, dsa) = Inr (wb, tkb, dsb)"
    and at_i: "snakes wa ! i = snakes w ! i"
    and after_i: "snakes w' ! i = snakes wb ! i" by blast
  obtain p s where ps: "snakes wa ! i = (p, s)" by (cases "snakes wa ! i")
  with at_i assms(3) have "\<not> alive s" by (metis snd_conv)
  from tick_snake_dead [OF ps this, of tka dsa] b have "wb = wa" by simp
  with at_i after_i show ?thesis by simp
qed

text \<open>The ids of the snakes and of the registered transports stay distinct.\<close>

lemma dicts_ok_accept: "dicts_ok w \<Longrightarrow> dicts_ok (snd (accept r wr x y d w))"
  by (simp add: dicts_ok_def accept_def Let_def distinct_update)

lemma dicts_ok_cleanup: "dicts_ok w \<Longrightarrow> dicts_ok (cleanup p w)"
  by (auto simp: dicts_ok_def cleanup_def Let_def distinct_update distinct_delete
      split: option.splits)

lemma dicts_ok_session_step: "dicts_ok w \<Longrightarrow> dicts_ok (fst (session_step p rd w))"
  using dicts_ok_cleanup [of w p]
  by (auto simp: session_step_def handle_msg_def apply_cmd_def dicts_ok_def distinct_update
      split: read.splits option.splits sum.splits if_splits json.splits prod.splits)

lemma dicts_ok_game_tick:
  assumes "dicts_ok w" and "game_tick fails ds w = Inr (w', tr, ds')"
  shows "dicts_ok w'"
proof -
  from game_tick_Inr [OF assms(2)] obtain tk where "move_snakes ds w = Inr (w', tk, ds')"
    by blast
  then have "tick_loop [0..<length (snakes w)] (w, [], ds) = Inr (w', tk, ds')"
    by (simp add: move_snakes_def)
  from tick_loop_frame [OF this] assms(1) show ?thesis by (simp add: dicts_ok_def)
qed

lemma dicts_ok_broadcast_frame:
  assumes "dicts_ok w" and "broadcast_frame fails w = Inr (w', tr)"
  shows "dicts_ok w'"
proof -
  from assms(2) obtain data where r: "render w = Inr data"
    by (auto simp: broadcast_frame_def split: sum.splits)
  from assms(1) have "distinct (map fst (writers w))" by (simp add: dicts_ok_def)
  from broadcast_frame_eq [OF this r, of fails] assms show ?thesis
    by (auto simp: dicts_ok_def distinct_map_filter)
qed

end
